theory Spec2Isabelle
  imports Complex_Main "HOL-Library.Char_ord" "HOL-Library.List_Lexorder"
    "HOL-Library.Product_Lexorder"
begin

section \<open>Numeric cells and errors\<close>

text \<open>
  A numeric cell of a pandas column is a float64. It is modelled by its IEEE class: a
  finite value (an exact real: rounding and the sign of zero are not modelled), the two
  infinities, and NaN, which is also pandas' missing value. Comparisons with NaN are
  false; division by zero raises nothing and gives an infinity or NaN.
\<close>

datatype pyfloat = Fin real | PInf | NInf | NaN

fun fle :: "pyfloat \<Rightarrow> pyfloat \<Rightarrow> bool" where
  "fle NaN _ = False"
| "fle _ NaN = False"
| "fle NInf _ = True"
| "fle _ PInf = True"
| "fle (Fin x) (Fin y) = (x \<le> y)"
| "fle _ _ = False"

fun flt :: "pyfloat \<Rightarrow> pyfloat \<Rightarrow> bool" where
  "flt NaN _ = False"
| "flt _ NaN = False"
| "flt PInf _ = False"
| "flt _ NInf = False"
| "flt (Fin x) (Fin y) = (x < y)"
| "flt _ _ = True"

fun fneg :: "pyfloat \<Rightarrow> pyfloat" where
  "fneg (Fin x) = Fin (- x)"
| "fneg PInf = NInf"
| "fneg NInf = PInf"
| "fneg NaN = NaN"

fun fsub :: "pyfloat \<Rightarrow> pyfloat \<Rightarrow> pyfloat" where
  "fsub NaN _ = NaN"
| "fsub _ NaN = NaN"
| "fsub (Fin x) (Fin y) = Fin (x - y)"
| "fsub (Fin x) b = fneg b"
| "fsub PInf PInf = NaN"
| "fsub NInf NInf = NaN"
| "fsub a _ = a"

fun fadd :: "pyfloat \<Rightarrow> pyfloat \<Rightarrow> pyfloat" where
  "fadd a b = fsub a (fneg b)"

fun fsign :: "pyfloat \<Rightarrow> pyfloat \<Rightarrow> pyfloat" where
  "fsign a (Fin y) = (if y = 0 then NaN else if 0 < y then a else fneg a)"
| "fsign a PInf = a"
| "fsign a NInf = fneg a"
| "fsign a NaN = NaN"

fun fmul :: "pyfloat \<Rightarrow> pyfloat \<Rightarrow> pyfloat" where
  "fmul NaN _ = NaN"
| "fmul _ NaN = NaN"
| "fmul (Fin x) (Fin y) = Fin (x * y)"
| "fmul (Fin x) b = fsign b (Fin x)"
| "fmul a b = fsign a b"

fun fdiv :: "pyfloat \<Rightarrow> pyfloat \<Rightarrow> pyfloat" where
  "fdiv NaN _ = NaN"
| "fdiv _ NaN = NaN"
| "fdiv (Fin x) (Fin y) =
     (if y = 0 then (if x = 0 then NaN else if 0 < x then PInf else NInf)
      else Fin (x / y))"
| "fdiv (Fin x) _ = Fin 0"
| "fdiv a (Fin y) = (if 0 \<le> y then a else fneg a)"
| "fdiv _ _ = NaN"

definition isnull :: "pyfloat \<Rightarrow> bool" where
  "isnull x = (x = NaN)"

text \<open>The exceptions the modelled code can raise.\<close>

datatype error = ValueError | KeyError | AttributeError

section \<open>Joining the four tables\<close>

text \<open>
  A key cell is an integer or missing; pandas' merge matches a missing key with a missing
  key, which the equality of \<open>int option\<close> does too. The other columns of a table are
  kept together as one value. The four frames have their key columns, with one dtype.
\<close>

type_synonym key = "int option"

record 's sales_row =
  CustomerKey :: key
  ProductKey :: key
  SalesTerritoryKey :: key
  sales_columns :: 's

record 'c customer_row =
  CustomerKey :: key
  customer_columns :: 'c

record 'p product_row =
  ProductKey :: key
  product_columns :: 'p

record 't territory_row =
  SalesTerritoryKey :: key
  territory_columns :: 't

text \<open>
  \<^verbatim>\<open>left.merge(right, on=key, how='left')\<close>: the rows of \<open>left\<close> in their order, each
  paired with every row of \<open>right\<close> that has its key (in the order of \<open>right\<close>), or
  once with missing values when there is none.
\<close>

definition matches :: "('r \<Rightarrow> key) \<Rightarrow> key \<Rightarrow> 'r list \<Rightarrow> 'r option list" where
  "matches right_on k right =
     (case filter (\<lambda>r. right_on r = k) right of
        [] \<Rightarrow> [None]
      | ms \<Rightarrow> map Some ms)"

definition merge_left ::
  "('l \<Rightarrow> key) \<Rightarrow> ('r \<Rightarrow> key) \<Rightarrow> 'l list \<Rightarrow> 'r list \<Rightarrow> ('l \<times> 'r option) list" where
  "merge_left left_on right_on left right =
     concat (map (\<lambda>l. map (Pair l) (matches right_on (left_on l) right)) left)"

text \<open>
  A row of \<^verbatim>\<open>merged_df\<close>: the sales row and the columns of the matching rows of the
  three other tables, \<open>None\<close> where the key matched nothing.
\<close>

record ('s, 'c, 'p, 't) merged_row =
  sales_part :: "'s sales_row"
  customer_part :: "'c customer_row option"
  product_part :: "'p product_row option"
  territory_part :: "'t territory_row option"

definition merge_data ::
  "'c customer_row list \<Rightarrow> 'p product_row list \<Rightarrow> 's sales_row list \<Rightarrow> 't territory_row list
     \<Rightarrow> ('s, 'c, 'p, 't) merged_row list" where
  "merge_data customer_df product_df sales_df territories_df =
     map (\<lambda>(((s, c), p), t).
            \<lparr>sales_part = s, customer_part = c, product_part = p, territory_part = t\<rparr>)
       (merge_left (\<lambda>((s, c), p). sales_row.SalesTerritoryKey s) territory_row.SalesTerritoryKey
          (merge_left (\<lambda>(s, c). sales_row.ProductKey s) product_row.ProductKey
             (merge_left sales_row.CustomerKey customer_row.CustomerKey sales_df customer_df)
             product_df)
          territories_df)"

text \<open>
  The specification's left join, in one pass: every sales row, with every combination of
  its matching customer, product and territory rows, a missing value standing for a
  table without a match.
\<close>

definition spec_left_join ::
  "'c customer_row list \<Rightarrow> 'p product_row list \<Rightarrow> 's sales_row list \<Rightarrow> 't territory_row list
     \<Rightarrow> ('s, 'c, 'p, 't) merged_row list" where
  "spec_left_join customer_df product_df sales_df territories_df =
     concat (map (\<lambda>s.
       concat (map (\<lambda>c.
         concat (map (\<lambda>p.
           map (\<lambda>t. \<lparr>sales_part = s, customer_part = c, product_part = p, territory_part = t\<rparr>)
             (matches territory_row.SalesTerritoryKey (sales_row.SalesTerritoryKey s) territories_df))
           (matches product_row.ProductKey (sales_row.ProductKey s) product_df)))
         (matches customer_row.CustomerKey (sales_row.CustomerKey s) customer_df)))
       sales_df)"

section \<open>Binning: the primitive behind pd.cut and pd.qcut\<close>

text \<open>
  Both \<^verbatim>\<open>pd.cut\<close> and \<^verbatim>\<open>pd.qcut\<close> end in pandas' \<^verbatim>\<open>_bins_to_cuts\<close>
  with \<^verbatim>\<open>right=True\<close>: the bin of \<open>x\<close> is the number of edges strictly below it
  (\<^verbatim>\<open>searchsorted(side='left')\<close>); with \<^verbatim>\<open>include_lowest\<close> a value equal to the
  first edge goes to bin 1; bin 0, a bin past the last edge, and NaN are missing.
  The label of bin \<open>i\<close> is \<open>labels[i - 1]\<close>.
\<close>

definition searchsorted_left :: "pyfloat list \<Rightarrow> pyfloat \<Rightarrow> nat" where
  "searchsorted_left bins x = length (takeWhile (\<lambda>b. flt b x) bins)"

definition bins_to_cuts :: "pyfloat list \<Rightarrow> 'l list \<Rightarrow> bool \<Rightarrow> pyfloat \<Rightarrow> 'l option" where
  "bins_to_cuts bins labels include_lowest x =
     (let ids0 = searchsorted_left bins x;
          ids = (if include_lowest \<and> bins \<noteq> [] \<and> x = hd bins then 1 else ids0)
      in if isnull x \<or> ids = length bins \<or> ids = 0 then None
         else Some (labels ! (ids - 1)))"

section \<open>Cleaning: income segment and profitability\<close>

text \<open>
  \<^verbatim>\<open>pd.cut(df['YearlyIncome'], bins=[0, 50000, 80000, 100000, float('inf')],
  labels=['Low', 'Medium', 'High', 'Very High'])\<close>, for one cell of the column
  (\<^verbatim>\<open>include_lowest\<close> keeps its default, False).
\<close>

definition income_segment :: "pyfloat \<Rightarrow> string option" where
  "income_segment YearlyIncome =
     bins_to_cuts [Fin 0, Fin 50000, Fin 80000, Fin 100000, PInf]
       [''Low'', ''Medium'', ''High'', ''Very High''] False YearlyIncome"

text \<open>
  \<^verbatim>\<open>df['Profit'] = df['SalesAmount'] - df['TotalProductCost']\<close> and
  \<^verbatim>\<open>df['ProfitMargin'] = (df['Profit'] / df['SalesAmount']) * 100\<close>, for one record.
\<close>

definition profit :: "pyfloat \<Rightarrow> pyfloat \<Rightarrow> pyfloat" where
  "profit SalesAmount TotalProductCost = fsub SalesAmount TotalProductCost"

definition profit_margin :: "pyfloat \<Rightarrow> pyfloat \<Rightarrow> pyfloat" where
  "profit_margin SalesAmount TotalProductCost =
     fmul (fdiv (profit SalesAmount TotalProductCost) SalesAmount) (Fin 100)"

section \<open>The cleaned sales table\<close>

text \<open>
  A \<^verbatim>\<open>Timestamp\<close> is its int64 value: nanoseconds since 1970-01-01. A cell of a
  datetime column is a timestamp or \<^verbatim>\<open>NaT\<close> (\<open>None\<close>), which
  \<^verbatim>\<open>pd.to_datetime(errors='coerce')\<close> puts where a date does not parse.
  \<^verbatim>\<open>.dt.to_period('M')\<close> is the calendar month (year, month) of the timestamp in
  the proleptic Gregorian calendar.
\<close>

type_synonym timestamp = int

definition Timedelta_days :: "int \<Rightarrow> int" where
  "Timedelta_days n = n * 86400000000000"

definition days :: "int \<Rightarrow> int" where
  "days td = td div 86400000000000"

definition to_period_M :: "timestamp \<Rightarrow> int \<times> int" where
  "to_period_M ts =
     (let z = days ts + 719468;
          era = z div 146097;
          doe = z mod 146097;
          yoe = (doe - doe div 1460 + doe div 36524 - doe div 146096) div 365;
          doy = doe - (365 * yoe + yoe div 4 - yoe div 100);
          mp = (5 * doy + 2) div 153;
          m = (if mp < 10 then mp + 3 else mp - 9);
          y = yoe + era * 400 + (if m \<le> 2 then 1 else 0)
      in (y, m))"

text \<open>
  One row of the cleaned frame \<^verbatim>\<open>df\<close>, with the columns the two segmentations read.
  A numeric cell is finite or missing (\<open>None\<close>, pandas' NaN); the key columns and the
  order number are present.
\<close>

record sale =
  CustomerKey :: int
  ProductKey :: int
  ProductName :: string
  SalesOrderNumber :: string
  OrderDate :: "timestamp option"
  SalesAmount :: "real option"
  OrderQuantity :: "real option"
  Profit :: "real option"

text \<open>The reductions of pandas skip missing cells: \<^verbatim>\<open>sum\<close>, \<^verbatim>\<open>max\<close>, \<^verbatim>\<open>nunique\<close>.\<close>

definition dropna :: "'a option list \<Rightarrow> 'a list" where
  "dropna xs = map the (filter (\<lambda>x. x \<noteq> None) xs)"

definition nansum :: "real option list \<Rightarrow> real" where
  "nansum xs = sum_list (dropna xs)"

fun maximum :: "int list \<Rightarrow> int option" where
  "maximum [] = None"
| "maximum (x # xs) = (case maximum xs of None \<Rightarrow> Some x | Some m \<Rightarrow> Some (max x m))"

definition nanmax :: "timestamp option list \<Rightarrow> timestamp option" where
  "nanmax xs = maximum (dropna xs)"

definition nunique :: "'a list \<Rightarrow> nat" where
  "nunique xs = length (remdups xs)"

section \<open>RFM analysis\<close>

text \<open>
  The table \<^verbatim>\<open>rfm\<close> after the \<^verbatim>\<open>groupby('CustomerKey').agg(...)\<close>: one row per
  customer key, in ascending key order. \<^verbatim>\<open>snapshot_date\<close> is the latest order date
  plus one day; a customer none of whose order dates parsed has \<^verbatim>\<open>NaT.days\<close>, that
  is NaN, as Recency.
\<close>

record rfm_row =
  CustomerKey :: int
  Recency :: "int option"
  Frequency :: nat
  Monetary :: real

definition snapshot_date :: "sale list \<Rightarrow> timestamp option" where
  "snapshot_date df = map_option (\<lambda>m. m + Timedelta_days 1) (nanmax (map OrderDate df))"

definition customer_rows :: "sale list \<Rightarrow> int \<Rightarrow> sale list" where
  "customer_rows df k = filter (\<lambda>r. sale.CustomerKey r = k) df"

definition rfm_table :: "sale list \<Rightarrow> rfm_row list" where
  "rfm_table df =
     map (\<lambda>k.
        let x = customer_rows df k in
        \<lparr>rfm_row.CustomerKey = k,
         Recency = (case (snapshot_date df, nanmax (map OrderDate x)) of
                      (Some s, Some d) \<Rightarrow> Some (days (s - d))
                    | _ \<Rightarrow> None),
         Frequency = nunique (map sale.SalesOrderNumber x),
         Monetary = nansum (map sale.SalesAmount x)\<rparr>)
       (sort (remdups (map sale.CustomerKey df)))"

text \<open>
  \<^verbatim>\<open>Series.rank(method='first')\<close>: the rank of a value is its 1-based position in
  ascending order, equal values ranked in the order they appear.
\<close>

definition rank_first :: "'a::linorder list \<Rightarrow> real list" where
  "rank_first xs =
     map (\<lambda>i. real (Suc (length
            (filter (\<lambda>j. xs ! j < xs ! i \<or> (xs ! j = xs ! i \<and> j < i)) [0..<length xs]))))
       [0..<length xs]"

text \<open>
  \<^verbatim>\<open>pd.qcut(x, q, labels=labels)\<close>. The edges are the quantiles \<open>0, 1/q, ..., 1\<close> of the
  values that are not missing, by linear interpolation between the order statistics
  (all NaN when there is no value). Edges that are not pairwise distinct raise
  \<^verbatim>\<open>ValueError\<close> (\<^verbatim>\<open>duplicates='raise'\<close> is the default); otherwise every value is
  binned with \<^verbatim>\<open>include_lowest=True\<close>. The fractions and the interpolation are exact
  here, where numpy rounds to float64.
\<close>

definition quantile :: "real list \<Rightarrow> real \<Rightarrow> real option" where
  "quantile vs p =
     (if vs = [] then None
      else let h = p * real (length vs - 1);
               j = nat \<lfloor>h\<rfloor>;
               g = h - real j
           in Some (if j + 1 < length vs then vs ! j + (vs ! (j + 1) - vs ! j) * g
                    else vs ! j))"

definition to_float :: "real option \<Rightarrow> pyfloat" where
  "to_float v = (case v of None \<Rightarrow> NaN | Some x \<Rightarrow> Fin x)"

definition qcut_bins :: "real option list \<Rightarrow> nat \<Rightarrow> real option list" where
  "qcut_bins x q = map (\<lambda>i. quantile (sort (dropna x)) (real i / real q)) [0..<q + 1]"

definition qcut :: "real option list \<Rightarrow> nat \<Rightarrow> 'l list \<Rightarrow> error + 'l option list" where
  "qcut x q labels =
     (let bins = qcut_bins x q in
      if \<not> distinct bins then Inl ValueError
      else Inr (map (\<lambda>v. bins_to_cuts (map to_float bins) labels True (to_float v)) x))"

text \<open>
  The scored table: the three score columns (categories, missing where the value is),
  and \<^verbatim>\<open>RFM_Score\<close>, the concatenation of their \<^verbatim>\<open>astype(str)\<close>.
\<close>

record rfm_scored = rfm_row +
  R_Score :: "int option"
  F_Score :: "int option"
  M_Score :: "int option"
  RFM_Score :: string

definition str_score :: "int option \<Rightarrow> string" where
  "str_score c =
     (case c of None \<Rightarrow> ''nan''
      | Some n \<Rightarrow> (if n = 1 then ''1'' else if n = 2 then ''2'' else if n = 3 then ''3''
                   else if n = 4 then ''4'' else ''5''))"

definition add_scores :: "rfm_row \<Rightarrow> int option \<Rightarrow> int option \<Rightarrow> int option \<Rightarrow> rfm_scored" where
  "add_scores row r f m =
     rfm_row.extend row (rfm_scored.fields r f m (str_score r @ str_score f @ str_score m))"

text \<open>
  \<^verbatim>\<open>assign_segment(row)\<close>: \<^verbatim>\<open>int(...)\<close> of the three scores, which raises
  \<^verbatim>\<open>ValueError\<close> on a missing score, then the chain of \<^verbatim>\<open>if/elif\<close>.
\<close>

definition assign_segment :: "'a rfm_scored_scheme \<Rightarrow> error + string" where
  "assign_segment row =
     (case (R_Score row, F_Score row, M_Score row) of
        (Some r, Some f, Some m) \<Rightarrow>
          Inr (if r \<ge> 4 \<and> f \<ge> 4 \<and> m \<ge> 4 then ''Champions''
               else if r \<ge> 3 \<and> f \<ge> 3 \<and> m \<ge> 3 then ''Loyal Customers''
               else if r \<ge> 4 \<and> f \<le> 2 \<and> m \<le> 2 then ''New Customers''
               else if r \<ge> 3 \<and> f \<le> 2 \<and> m \<le> 2 then ''Promising''
               else if r \<le> 2 \<and> f \<ge> 3 \<and> m \<ge> 3 then ''Need Attention''
               else if r \<le> 2 \<and> f \<le> 2 \<and> m \<le> 2 then ''Hibernating''
               else ''Regular'')
      | _ \<Rightarrow> Inl ValueError)"

text \<open>
  The specification's reading of the same table: an ordered list of (predicate, label)
  pairs, evaluated top to bottom, the first match winning, with a default label.
\<close>

type_synonym rule = "(int \<Rightarrow> int \<Rightarrow> int \<Rightarrow> bool) \<times> string"

fun first_match :: "rule list \<Rightarrow> string \<Rightarrow> int \<Rightarrow> int \<Rightarrow> int \<Rightarrow> string" where
  "first_match [] dflt r f m = dflt"
| "first_match ((p, l) # rules) dflt r f m =
     (if p r f m then l else first_match rules dflt r f m)"

definition spec_decision_table :: "rule list" where
  "spec_decision_table =
     [(\<lambda>r f m. r \<ge> 4 \<and> f \<ge> 4 \<and> m \<ge> 4, ''Champions''),
      (\<lambda>r f m. r \<ge> 3 \<and> f \<ge> 3 \<and> m \<ge> 3, ''Loyal Customers''),
      (\<lambda>r f m. r \<ge> 4 \<and> f \<le> 2 \<and> m \<le> 2, ''New Customers''),
      (\<lambda>r f m. r \<ge> 3 \<and> f \<le> 2 \<and> m \<le> 2, ''Promising''),
      (\<lambda>r f m. r \<le> 2 \<and> f \<ge> 3 \<and> m \<ge> 3, ''Need Attention''),
      (\<lambda>r f m. r \<le> 2 \<and> f \<le> 2 \<and> m \<le> 2, ''Hibernating'')]"

definition spec_segment :: "int \<Rightarrow> int \<Rightarrow> int \<Rightarrow> string" where
  "spec_segment r f m = first_match spec_decision_table ''Regular'' r f m"

text \<open>
  \<^verbatim>\<open>rfm['Segment'] = rfm.apply(assign_segment, axis=1)\<close>: row by row, the first
  exception ending the analysis.
\<close>

record rfm_segmented = rfm_scored +
  Segment :: string

fun apply_assign_segment :: "rfm_scored list \<Rightarrow> error + rfm_segmented list" where
  "apply_assign_segment [] = Inr []"
| "apply_assign_segment (row # rows) =
     (case assign_segment row of
        Inl e \<Rightarrow> Inl e
      | Inr seg \<Rightarrow>
          (case apply_assign_segment rows of
             Inl e \<Rightarrow> Inl e
           | Inr out \<Rightarrow> Inr (rfm_scored.extend row (rfm_segmented.fields seg) # out)))"

definition perform_rfm_analysis :: "sale list \<Rightarrow> error + rfm_segmented list" where
  "perform_rfm_analysis df =
     (let rfm = rfm_table df in
      case qcut (map (\<lambda>r. map_option real_of_int (Recency r)) rfm) 5 [5, 4, 3, 2, 1] of
        Inl e \<Rightarrow> Inl e
      | Inr R \<Rightarrow>
     (case qcut (map Some (rank_first (map Frequency rfm))) 5 [1, 2, 3, 4, 5] of
        Inl e \<Rightarrow> Inl e
      | Inr F \<Rightarrow>
     (case qcut (map Some (rank_first (map Monetary rfm))) 5 [1, 2, 3, 4, 5] of
        Inl e \<Rightarrow> Inl e
      | Inr M \<Rightarrow>
          apply_assign_segment
            (map (\<lambda>(row, r, f, m). add_scores row r f m) (zip rfm (zip R (zip F M)))))))"

section \<open>Quintiles of ranks\<close>

text \<open>
  The specification's quintile of a rank: with \<open>n\<close> customers ranked 1 to \<open>n\<close>, the
  score of rank \<open>r\<close> is the least \<open>k\<close> of 1 to 5 with
  \<open>r - 1 \<le> k * (n - 1) / 5\<close>, so that the five scores share the customers
  evenly.
\<close>

definition rank_quintile :: "nat \<Rightarrow> nat \<Rightarrow> int" where
  "rank_quintile n r =
     (if 5 * (r - 1) \<le> 1 * (n - 1) then 1
      else if 5 * (r - 1) \<le> 2 * (n - 1) then 2
      else if 5 * (r - 1) \<le> 3 * (n - 1) then 3
      else if 5 * (r - 1) \<le> 4 * (n - 1) then 4
      else 5)"

text \<open>
  Two notions for the proofs: \<open>below xs i j\<close> says that position \<open>j\<close> comes before
  position \<open>i\<close> in ascending order with ties in order of appearance, and \<open>nat_ranks\<close>
  are the ranks as natural numbers.
\<close>

definition below :: "'a::linorder list \<Rightarrow> nat \<Rightarrow> nat \<Rightarrow> bool" where
  "below xs i j = (xs ! j < xs ! i \<or> (xs ! j = xs ! i \<and> j < i))"

definition nat_ranks :: "'a::linorder list \<Rightarrow> nat list" where
  "nat_ranks xs = map (\<lambda>i. Suc (length (filter (below xs i) [0..<length xs]))) [0..<length xs]"

section \<open>ABC analysis\<close>

text \<open>
  \<^verbatim>\<open>product_sales\<close> after
  \<^verbatim>\<open>df.groupby(['ProductKey', 'ProductName']).agg({...}).reset_index()\<close>: one row per
  key pair, in ascending key order, with the sums and the number of distinct orders.
\<close>

record product_sales =
  ProductKey :: int
  ProductName :: string
  SalesAmount :: real
  OrderQuantity :: real
  Profit :: real
  SalesOrderNumber :: nat

definition groupby_product :: "sale list \<Rightarrow> product_sales list" where
  "groupby_product df =
     map (\<lambda>(k, n).
        let g = filter (\<lambda>r. sale.ProductKey r = k \<and> sale.ProductName r = n) df in
        \<lparr>product_sales.ProductKey = k, ProductName = n,
         SalesAmount = nansum (map sale.SalesAmount g),
         OrderQuantity = nansum (map sale.OrderQuantity g),
         Profit = nansum (map sale.Profit g),
         SalesOrderNumber = nunique (map sale.SalesOrderNumber g)\<rparr>)
       (sort (remdups (map (\<lambda>r. (sale.ProductKey r, sale.ProductName r)) df)))"

text \<open>
  \<^verbatim>\<open>sort_values('SalesAmount', ascending=False)\<close>, then
  \<^verbatim>\<open>cumsum() / sum() * 100\<close> and \<^verbatim>\<open>abc_category\<close> on every row. The division is
  the float one: a total of 0 gives NaN or an infinity, not an exception.
\<close>

record abc_row = product_sales +
  CumulativePercentage :: pyfloat
  ABC_Category :: string

definition sort_values_desc :: "product_sales list \<Rightarrow> product_sales list" where
  "sort_values_desc ps = sort_key (\<lambda>p. - product_sales.SalesAmount p) ps"

fun cumsum_from :: "real \<Rightarrow> real list \<Rightarrow> real list" where
  "cumsum_from acc [] = []"
| "cumsum_from acc (x # xs) = (acc + x) # cumsum_from (acc + x) xs"

definition cumsum :: "real list \<Rightarrow> real list" where
  "cumsum xs = cumsum_from 0 xs"

definition abc_category :: "pyfloat \<Rightarrow> string" where
  "abc_category x =
     (if fle x (Fin 80) then ''A''
      else if fle x (Fin 95) then ''B''
      else ''C'')"

definition cumulative_percentage :: "real \<Rightarrow> real \<Rightarrow> pyfloat" where
  "cumulative_percentage c s = fmul (fdiv (Fin c) (Fin s)) (Fin 100)"

definition abc_analysis :: "product_sales list \<Rightarrow> abc_row list" where
  "abc_analysis product_sales =
     (let ps = sort_values_desc product_sales;
          amounts = map product_sales.SalesAmount ps;
          s = sum_list amounts
      in map (\<lambda>(p, c).
            let pct = cumulative_percentage c s in
            product_sales.extend p
              (abc_row.fields pct (abc_category pct)))
           (zip ps (cumsum amounts)))"

section \<open>XYZ analysis\<close>

text \<open>
  The \<^verbatim>\<open>try\<close> block reads \<^verbatim>\<open>df['OrderDate'].dt\<close>: a frame without the column raises
  \<^verbatim>\<open>KeyError\<close>, a column that is not datetime-like raises \<^verbatim>\<open>AttributeError\<close>.
  The state of that column is part of the input.
\<close>

datatype column_state = Absent | Not_datetime | Datetime

text \<open>
  \<^verbatim>\<open>df.pivot_table(index='ProductKey', columns=df['OrderDate'].dt.to_period('M'),
  values='OrderQuantity', aggfunc='sum').fillna(0)\<close>: one row per product key and one
  column per month among the rows whose order date is not NaT, both ascending; a cell is
  the sum of the quantities of that product in that month, 0 where there is none.
\<close>

definition pivot_index :: "sale list \<Rightarrow> int list" where
  "pivot_index df = sort (remdups (map sale.ProductKey (filter (\<lambda>r. OrderDate r \<noteq> None) df)))"

definition pivot_columns :: "sale list \<Rightarrow> (int \<times> int) list" where
  "pivot_columns df = sort (remdups (map to_period_M (dropna (map OrderDate df))))"

definition monthly_product_sales :: "sale list \<Rightarrow> (int \<times> real list) list" where
  "monthly_product_sales df =
     map (\<lambda>k. (k, map (\<lambda>m. nansum (map sale.OrderQuantity
                     (filter (\<lambda>r. sale.ProductKey r = k
                                \<and> map_option to_period_M (OrderDate r) = Some m) df)))
                  (pivot_columns df)))
       (pivot_index df)"

text \<open>
  \<^verbatim>\<open>mean(axis=1)\<close> and \<^verbatim>\<open>std(axis=1)\<close> of a pivot row. The standard deviation is
  the sample one (\<^verbatim>\<open>ddof=1\<close>): NaN, not an exception, for fewer than two columns.
\<close>

definition row_mean :: "real list \<Rightarrow> pyfloat" where
  "row_mean xs = (if xs = [] then NaN else Fin (sum_list xs / real (length xs)))"

definition row_std :: "real list \<Rightarrow> pyfloat" where
  "row_std xs =
     (if length xs \<le> 1 then NaN
      else let m = sum_list xs / real (length xs) in
           Fin (sqrt (sum_list (map (\<lambda>x. (x - m)\<^sup>2) xs) / real (length xs - 1))))"

definition coefficient_of_variation :: "real list \<Rightarrow> pyfloat" where
  "coefficient_of_variation xs = fdiv (row_std xs) (fadd (row_mean xs) (Fin (1 / 10000)))"

definition xyz_category :: "pyfloat \<Rightarrow> string" where
  "xyz_category cv =
     (if fle cv (Fin (3 / 10)) then ''X''
      else if fle cv (Fin (6 / 10)) then ''Y''
      else ''Z'')"

text \<open>
  The result rows: the ABC columns, \<^verbatim>\<open>CV\<close> (a column only when the \<^verbatim>\<open>try\<close> block
  succeeded), \<^verbatim>\<open>XYZ_Category\<close> and \<^verbatim>\<open>ABC_XYZ\<close>.
\<close>

record abc_xyz_row = abc_row +
  CV :: "pyfloat option"
  XYZ_Category :: string
  ABC_XYZ :: string

text \<open>
  The \<^verbatim>\<open>try\<close> block. The merge with \<^verbatim>\<open>cv\<close> is an inner one: a product without a
  pivot row leaves the table.
\<close>

definition xyz_try :: "column_state \<Rightarrow> sale list \<Rightarrow> abc_row list \<Rightarrow> error + abc_xyz_row list" where
  "xyz_try OrderDate_column df product_sales =
     (case OrderDate_column of
        Absent \<Rightarrow> Inl KeyError
      | Not_datetime \<Rightarrow> Inl AttributeError
      | Datetime \<Rightarrow>
          (let cv = map (\<lambda>(k, qs). (k, coefficient_of_variation qs)) (monthly_product_sales df)
           in Inr (concat (map (\<lambda>p.
                case map_of cv (product_sales.ProductKey p) of
                  None \<Rightarrow> []
                | Some c \<Rightarrow>
                    [abc_row.extend p
                       (abc_xyz_row.fields (Some c) (xyz_category c)
                          (ABC_Category p @ ''-'' @ xyz_category c))])
              product_sales))))"

text \<open>The \<^verbatim>\<open>except Exception\<close> branch.\<close>

definition xyz_unknown :: "abc_row list \<Rightarrow> abc_xyz_row list" where
  "xyz_unknown product_sales =
     map (\<lambda>p. abc_row.extend p
            (abc_xyz_row.fields None ''Unknown'' (ABC_Category p @ ''-Unknown'')))
       product_sales"

definition perform_abc_xyz_analysis :: "column_state \<Rightarrow> sale list \<Rightarrow> abc_xyz_row list" where
  "perform_abc_xyz_analysis OrderDate_column df =
     (let product_sales = abc_analysis (groupby_product df) in
      case xyz_try OrderDate_column df product_sales of
        Inr result \<Rightarrow> result
      | Inl e \<Rightarrow> xyz_unknown product_sales)"

section \<open>Example tables\<close>

text \<open>
  Three order lines of January 2024 (the 8th, the 13th and the 18th), two products.
\<close>

definition january_sales :: "sale list" where
  "january_sales =
     [\<lparr>sale.CustomerKey = 1, ProductKey = 1, ProductName = ''Bike'', SalesOrderNumber = ''SO1'',
      OrderDate = Some (Timedelta_days 19730), SalesAmount = Some 500, OrderQuantity = Some 2,
      Profit = Some 1\<rparr>,
     \<lparr>sale.CustomerKey = 1, ProductKey = 2, ProductName = ''Helmet'', SalesOrderNumber = ''SO2'',
      OrderDate = Some (Timedelta_days 19735), SalesAmount = Some 200, OrderQuantity = Some 3,
      Profit = Some 1\<rparr>,
     \<lparr>sale.CustomerKey = 1, ProductKey = 1, ProductName = ''Bike'', SalesOrderNumber = ''SO3'',
      OrderDate = Some (Timedelta_days 19740), SalesAmount = Some 300, OrderQuantity = Some 7,
      Profit = Some 1\<rparr>]"

text \<open>Two customers: the first ordered on 8 and 9 January 2024, the second on the 10th.\<close>

definition two_customers :: "sale list" where
  "two_customers =
     [\<lparr>sale.CustomerKey = 1, ProductKey = 7, ProductName = ''Bike'',
       SalesOrderNumber = ''SO1'', OrderDate = Some (Timedelta_days 19730),
       SalesAmount = Some 5, OrderQuantity = Some 1, Profit = Some 1\<rparr>,
      \<lparr>sale.CustomerKey = 2, ProductKey = 7, ProductName = ''Bike'',
       SalesOrderNumber = ''SO2'', OrderDate = Some (Timedelta_days 19732),
       SalesAmount = Some 7, OrderQuantity = Some 1, Profit = Some 1\<rparr>,
      \<lparr>sale.CustomerKey = 1, ProductKey = 7, ProductName = ''Bike'',
       SalesOrderNumber = ''SO3'', OrderDate = Some (Timedelta_days 19731),
       SalesAmount = Some 5, OrderQuantity = Some 1, Profit = Some 1\<rparr>]"

text \<open>Five customers with one order each, all on 8 January 2024.\<close>

definition five_customers_same_day :: "sale list" where
  "five_customers_same_day =
     [\<lparr>sale.CustomerKey = 1, ProductKey = 7, ProductName = ''Bike'',
       SalesOrderNumber = ''SO1'', OrderDate = Some (Timedelta_days 19730),
       SalesAmount = Some 10, OrderQuantity = Some 1, Profit = Some 1\<rparr>,
      \<lparr>sale.CustomerKey = 2, ProductKey = 7, ProductName = ''Bike'',
       SalesOrderNumber = ''SO2'', OrderDate = Some (Timedelta_days 19730),
       SalesAmount = Some 20, OrderQuantity = Some 1, Profit = Some 1\<rparr>,
      \<lparr>sale.CustomerKey = 3, ProductKey = 7, ProductName = ''Bike'',
       SalesOrderNumber = ''SO3'', OrderDate = Some (Timedelta_days 19730),
       SalesAmount = Some 30, OrderQuantity = Some 1, Profit = Some 1\<rparr>,
      \<lparr>sale.CustomerKey = 4, ProductKey = 7, ProductName = ''Bike'',
       SalesOrderNumber = ''SO4'', OrderDate = Some (Timedelta_days 19730),
       SalesAmount = Some 40, OrderQuantity = Some 1, Profit = Some 1\<rparr>,
      \<lparr>sale.CustomerKey = 5, ProductKey = 7, ProductName = ''Bike'',
       SalesOrderNumber = ''SO5'', OrderDate = Some (Timedelta_days 19730),
       SalesAmount = Some 50, OrderQuantity = Some 1, Profit = Some 1\<rparr>]"

text \<open>One customer, with one order and with two.\<close>

definition one_customer :: "sale list" where
  "one_customer =
     [\<lparr>sale.CustomerKey = 1, ProductKey = 7, ProductName = ''Bike'',
       SalesOrderNumber = ''SO1'', OrderDate = Some (Timedelta_days 19730),
       SalesAmount = Some 10, OrderQuantity = Some 1, Profit = Some 1\<rparr>]"

definition one_customer_two_orders :: "sale list" where
  "one_customer_two_orders =
     [\<lparr>sale.CustomerKey = 1, ProductKey = 7, ProductName = ''Bike'',
       SalesOrderNumber = ''SO1'', OrderDate = Some (Timedelta_days 19730),
       SalesAmount = Some 10, OrderQuantity = Some 1, Profit = Some 1\<rparr>,
      \<lparr>sale.CustomerKey = 1, ProductKey = 7, ProductName = ''Bike'',
       SalesOrderNumber = ''SO2'', OrderDate = Some (Timedelta_days 19760),
       SalesAmount = Some 25, OrderQuantity = Some 1, Profit = Some 1\<rparr>]"

section \<open>Theorems: joining the four tables\<close>

lemma merge_left_Nil: "merge_left lo ro [] r = []"
  by (simp add: merge_left_def)

lemma merge_left_append:
  "merge_left lo ro (xs @ ys) r = merge_left lo ro xs r @ merge_left lo ro ys r"
  by (simp add: merge_left_def)

lemma merge_left_concat:
  "merge_left lo ro (concat xss) r = concat (map (\<lambda>xs. merge_left lo ro xs r) xss)"
  by (induction xss) (simp_all add: merge_left_Nil merge_left_append)

lemma merge_left_map:
  "merge_left lo ro (map f xs) r =
     concat (map (\<lambda>x. map (Pair (f x)) (matches ro (lo (f x)) r)) xs)"
  by (simp add: merge_left_def comp_def)

lemma merge_data_eq_spec: "merge_data cs ps ss ts = spec_left_join cs ps ss ts"
  unfolding merge_data_def spec_left_join_def
  apply (subst merge_left_def[of sales_row.CustomerKey])
  apply (simp add: merge_left_concat merge_left_map map_concat comp_def)
  done

lemma matches_nonempty: "matches ro k r \<noteq> []"
  by (simp add: matches_def split: list.splits)

lemma set_matches: "set (matches ro k r) =
   (if \<exists>x\<in>set r. ro x = k then Some ` {x \<in> set r. ro x = k} else {None})"
proof (cases "filter (\<lambda>x. ro x = k) r")
  case Nil
  then have "\<not> (\<exists>x\<in>set r. ro x = k)" by (simp add: filter_empty_conv)
  with Nil show ?thesis by (simp add: matches_def)
next
  case (Cons a as)
  then have "a \<in> set (filter (\<lambda>x. ro x = k) r)" by simp
  then have ex: "\<exists>x\<in>set r. ro x = k" by auto
  have "set (matches ro k r) = Some ` set (filter (\<lambda>x. ro x = k) r)"
    using Cons by (simp add: matches_def)
  with ex show ?thesis by auto
qed

lemma matches_unique:
  assumes "distinct (map ro r)"
  shows "\<exists>m. matches ro k r = [m]"
proof -
  have "length (filter (\<lambda>x. ro x = k) r) \<le> 1"
    using assms
  proof (induction r)
    case Nil then show ?case by simp
  next
    case (Cons a r)
    then show ?case by (auto simp: filter_empty_conv image_iff)
  qed
  then show ?thesis
    by (cases "filter (\<lambda>x. ro x = k) r") (auto simp: matches_def)
qed

lemma set_spec_left_join_ex:
  "row \<in> set (spec_left_join cs ps ss ts) \<longleftrightarrow>
     (\<exists>s\<in>set ss.
       \<exists>c\<in>set (matches customer_row.CustomerKey (sales_row.CustomerKey s) cs).
       \<exists>p\<in>set (matches product_row.ProductKey (sales_row.ProductKey s) ps).
       \<exists>t\<in>set (matches territory_row.SalesTerritoryKey (sales_row.SalesTerritoryKey s) ts).
         row = \<lparr>sales_part = s, customer_part = c, product_part = p, territory_part = t\<rparr>)"
  unfolding spec_left_join_def set_concat set_map UN_iff image_iff bex_simps
  by (simp only: image_iff UN_iff set_map set_concat Bex_def)

lemma set_spec_left_join:
  "row \<in> set (spec_left_join cs ps ss ts) \<longleftrightarrow>
     sales_part row \<in> set ss
   \<and> customer_part row \<in> set (matches customer_row.CustomerKey (sales_row.CustomerKey (sales_part row)) cs)
   \<and> product_part row \<in> set (matches product_row.ProductKey (sales_row.ProductKey (sales_part row)) ps)
   \<and> territory_part row \<in> set (matches territory_row.SalesTerritoryKey (sales_row.SalesTerritoryKey (sales_part row)) ts)"
proof (cases row)
  case (fields s c p t)
  show ?thesis
    unfolding set_spec_left_join_ex fields by simp
qed

lemma sales_part_spec_left_join:
  "set (map sales_part (spec_left_join cs ps ss ts)) = set ss"
proof (intro set_eqI iffI)
  fix s assume "s \<in> set (map sales_part (spec_left_join cs ps ss ts))"
  then show "s \<in> set ss" by (auto simp: set_spec_left_join)
next
  fix s assume s: "s \<in> set ss"
  obtain c where c: "c \<in> set (matches customer_row.CustomerKey (sales_row.CustomerKey s) cs)"
    using matches_nonempty[of customer_row.CustomerKey "sales_row.CustomerKey s" cs] by (meson last_in_set)
  obtain p where p: "p \<in> set (matches product_row.ProductKey (sales_row.ProductKey s) ps)"
    using matches_nonempty[of product_row.ProductKey "sales_row.ProductKey s" ps] by (meson last_in_set)
  obtain t where t: "t \<in> set (matches territory_row.SalesTerritoryKey (sales_row.SalesTerritoryKey s) ts)"
    using matches_nonempty[of territory_row.SalesTerritoryKey "sales_row.SalesTerritoryKey s" ts] by (meson last_in_set)
  let ?row = "\<lparr>sales_part = s, customer_part = c, product_part = p, territory_part = t\<rparr>"
  have "?row \<in> set (spec_left_join cs ps ss ts)"
    using s c p t by (simp add: set_spec_left_join)
  then have "sales_part ?row \<in> set (map sales_part (spec_left_join cs ps ss ts))"
    by (metis imageI set_map)
  then show "s \<in> set (map sales_part (spec_left_join cs ps ss ts))" by simp
qed

lemma spec_left_join_unique_keys:
  assumes "distinct (map customer_row.CustomerKey cs)"
    and "distinct (map product_row.ProductKey ps)"
    and "distinct (map territory_row.SalesTerritoryKey ts)"
  shows "map sales_part (spec_left_join cs ps ss ts) = ss"
proof (induction ss)
  case Nil
  then show ?case by (simp add: spec_left_join_def)
next
  case (Cons s ss)
  obtain c where c: "matches customer_row.CustomerKey (sales_row.CustomerKey s) cs = [c]"
    using matches_unique[OF assms(1)] by blast
  obtain p where p: "matches product_row.ProductKey (sales_row.ProductKey s) ps = [p]"
    using matches_unique[OF assms(2)] by blast
  obtain t where t: "matches territory_row.SalesTerritoryKey (sales_row.SalesTerritoryKey s) ts = [t]"
    using matches_unique[OF assms(3)] by blast
  have "spec_left_join cs ps (s # ss) ts =
      \<lparr>sales_part = s, customer_part = c, product_part = p, territory_part = t\<rparr>
        # spec_left_join cs ps ss ts"
    by (simp add: spec_left_join_def c p t)
  with Cons show ?case by simp
qed

lemma matched_or_null:
  assumes "m \<in> set (matches ro k r)"
  shows "case m of Some x \<Rightarrow> x \<in> set r \<and> ro x = k | None \<Rightarrow> \<forall>x\<in>set r. ro x \<noteq> k"
  using assms by (auto simp: set_matches split: if_splits option.splits)



section \<open>Theorems: cleaning\<close>

text \<open>
  C10. The income bands are left-open and right-closed over the edges
  0, 50000, 80000, 100000, infinity: an income of 0 or below (and a missing income) has
  no segment, and the incomes 50000, 80000 and 100000 fall in the lower band.
\<close>

theorem income_segment_intervals:
  "income_segment (Fin x) =
     (if x \<le> 0 then None
      else if x \<le> 50000 then Some ''Low''
      else if x \<le> 80000 then Some ''Medium''
      else if x \<le> 100000 then Some ''High''
      else Some ''Very High'')
   \<and> income_segment (Fin 0) = None
   \<and> income_segment (Fin (- 1)) = None
   \<and> income_segment (Fin 50000) = Some ''Low''
   \<and> income_segment (Fin 80000) = Some ''Medium''
   \<and> income_segment (Fin 100000) = Some ''High''
   \<and> income_segment NaN = None"
  by (simp add: income_segment_def bins_to_cuts_def searchsorted_left_def isnull_def Let_def)



section \<open>Theorems: segment assignment\<close>


section \<open>Theorems: RFM analysis\<close>

lemma maximum_None: "maximum xs = None \<longleftrightarrow> xs = []"
  by (cases xs) (auto split: option.splits)

lemma maximum_Some:
  "maximum xs = Some m \<Longrightarrow> m \<in> set xs \<and> (\<forall>x\<in>set xs. x \<le> m)"
proof (induction xs arbitrary: m)
  case Nil
  then show ?case by simp
next
  case (Cons x xs)
  show ?case
  proof (cases "maximum xs")
    case None
    then have "xs = []" by (simp add: maximum_None)
    with Cons.prems show ?thesis by simp
  next
    case (Some m')
    with Cons.IH[OF Some] Cons.prems show ?thesis
      by (auto simp: max_def split: if_splits)
  qed
qed

lemma set_dropna: "set (dropna xs) = {x. Some x \<in> set xs}"
  by (induction xs) (auto simp: dropna_def)

lemma nanmax_Some:
  "nanmax xs = Some m \<Longrightarrow> Some m \<in> set xs \<and> (\<forall>x. Some x \<in> set xs \<longrightarrow> x \<le> m)"
  unfolding nanmax_def by (drule maximum_Some) (simp add: set_dropna)

lemma customer_rows_subset: "set (customer_rows df k) \<subseteq> set df"
  by (auto simp: customer_rows_def)

lemma days_ge_1: "0 \<le> d \<Longrightarrow> 1 \<le> days (d + Timedelta_days 1)"
proof -
  assume "0 \<le> d"
  then have "86400000000000 \<le> d + 86400000000000" by simp
  then have "86400000000000 div 86400000000000 \<le> (d + 86400000000000) div (86400000000000::int)"
    by (rule zdiv_mono1) simp
  then show ?thesis by (simp add: days_def Timedelta_days_def)
qed

lemma rfm_table_recency:
  assumes "row \<in> set (rfm_table df)" "Recency row = Some r"
  shows "\<exists>latest last.
           nanmax (map OrderDate df) = Some latest
         \<and> nanmax (map OrderDate (customer_rows df (rfm_row.CustomerKey row))) = Some last
         \<and> last \<le> latest
         \<and> r = days (latest + Timedelta_days 1 - last)
         \<and> 1 \<le> r"
proof -
  from assms(1) obtain k where row: "row =
        \<lparr>rfm_row.CustomerKey = k,
         Recency = (case (snapshot_date df, nanmax (map OrderDate (customer_rows df k))) of
                      (Some s, Some d) \<Rightarrow> Some (days (s - d))
                    | _ \<Rightarrow> None),
         Frequency = nunique (map sale.SalesOrderNumber (customer_rows df k)),
         Monetary = nansum (map sale.SalesAmount (customer_rows df k))\<rparr>"
    by (auto simp: rfm_table_def Let_def)
  have k: "rfm_row.CustomerKey row = k" by (simp add: row)
  from assms(2) obtain s last where s: "snapshot_date df = Some s"
    and last: "nanmax (map OrderDate (customer_rows df k)) = Some last"
    and r: "r = days (s - last)"
    by (auto simp: row split: option.splits)
  from s obtain latest where latest: "nanmax (map OrderDate df) = Some latest"
    and s': "s = latest + Timedelta_days 1"
    by (auto simp: snapshot_date_def)
  have "Some last \<in> set (map OrderDate (customer_rows df k))"
    using nanmax_Some[OF last] by simp
  then have "Some last \<in> set (map OrderDate df)"
    using customer_rows_subset[of df k] by auto
  then have le: "last \<le> latest"
    using nanmax_Some[OF latest] by blast
  have "1 \<le> days ((latest - last) + Timedelta_days 1)"
    using le by (intro days_ge_1) simp
  then have "1 \<le> r" by (simp add: r s' algebra_simps)
  with latest last le r s' k show ?thesis by simp
qed

lemma bins_to_cuts_NaN: "bins_to_cuts bins labels il NaN = None"
  by (simp add: bins_to_cuts_def isnull_def Let_def)

lemma qcut_Inr:
  assumes "qcut x q labels = Inr R"
  shows "length R = length x" and "\<And>i. i < length x \<Longrightarrow> x ! i = None \<Longrightarrow> R ! i = None"
  using assms
  by (auto simp: qcut_def Let_def to_float_def bins_to_cuts_NaN split: if_splits)

lemma assign_segment_Inr: "assign_segment row = Inr seg \<Longrightarrow> R_Score row \<noteq> None"
  by (auto simp: assign_segment_def split: option.splits)

lemma apply_assign_segment_Inr:
  "apply_assign_segment rows = Inr out \<Longrightarrow>
     map rfm_row.CustomerKey out = map rfm_row.CustomerKey rows
   \<and> map Recency out = map Recency rows
   \<and> (\<forall>row\<in>set rows. R_Score row \<noteq> None)"
proof (induction rows arbitrary: out)
  case Nil then show ?case by simp
next
  case (Cons row rows)
  then show ?case
    by (auto simp: rfm_scored.extend_def split: sum.splits dest: assign_segment_Inr)
qed

lemma add_scores_sel:
  "rfm_row.CustomerKey (add_scores row r f m) = rfm_row.CustomerKey row"
  "Recency (add_scores row r f m) = Recency row"
  "R_Score (add_scores row r f m) = r"
  "F_Score (add_scores row r f m) = f"
  "M_Score (add_scores row r f m) = m"
  by (simp_all add: add_scores_def rfm_row.extend_def rfm_scored.fields_def)

lemma scored_rows:
  assumes "length R = length rfm" "length F = length rfm" "length M = length rfm"
  shows "map rfm_row.CustomerKey (map (\<lambda>(row, r, f, m). add_scores row r f m) (zip rfm (zip R (zip F M))))
           = map rfm_row.CustomerKey rfm"
    and "map Recency (map (\<lambda>(row, r, f, m). add_scores row r f m) (zip rfm (zip R (zip F M))))
           = map Recency rfm"
    and "map R_Score (map (\<lambda>(row, r, f, m). add_scores row r f m) (zip rfm (zip R (zip F M))))
           = R"
  using assms by (auto intro!: nth_equalityI simp: add_scores_sel)

lemma recency_of_output:
  assumes "perform_rfm_analysis df = Inr out"
  shows "map rfm_row.CustomerKey out = sort (remdups (map sale.CustomerKey df))
    \<and> (\<forall>row\<in>set out. \<exists>latest last.
           nanmax (map OrderDate df) = Some latest
         \<and> nanmax (map OrderDate (customer_rows df (rfm_row.CustomerKey row))) = Some last
         \<and> Recency row = Some (days (latest + Timedelta_days 1 - last))
         \<and> 1 \<le> days (latest + Timedelta_days 1 - last))"
proof -
  let ?rfm = "rfm_table df"
  let ?x = "map (\<lambda>r. map_option real_of_int (Recency r)) ?rfm"
  from assms obtain R F M where
    R: "qcut ?x 5 [5, 4, 3, 2, 1 :: int] = Inr R" and
    F: "qcut (map Some (rank_first (map Frequency ?rfm))) 5 [1, 2, 3, 4, 5 :: int] = Inr F" and
    M: "qcut (map Some (rank_first (map Monetary ?rfm))) 5 [1, 2, 3, 4, 5 :: int] = Inr M" and
    app: "apply_assign_segment
            (map (\<lambda>(row, r, f, m). add_scores row r f m) (zip ?rfm (zip R (zip F M)))) = Inr out"
    by (auto simp: perform_rfm_analysis_def Let_def split: sum.splits)
  let ?scored = "map (\<lambda>(row, r, f, m). add_scores row r f m) (zip ?rfm (zip R (zip F M)))"
  have lR: "length R = length ?rfm" using qcut_Inr(1)[OF R] by simp
  have lF: "length F = length ?rfm" using qcut_Inr(1)[OF F] by (simp add: rank_first_def)
  have lM: "length M = length ?rfm" using qcut_Inr(1)[OF M] by (simp add: rank_first_def)
  note sc = scored_rows[OF lR lF lM]
  note ap = apply_assign_segment_Inr[OF app]
  have keys: "map rfm_row.CustomerKey out = map rfm_row.CustomerKey ?rfm"
    using ap sc(1) by simp
  have rec: "map Recency out = map Recency ?rfm"
    using ap sc(2) by simp
  have len: "length out = length ?rfm"
    using keys by (metis length_map)
  have Rsome: "\<forall>r\<in>set R. r \<noteq> None"
  proof
    fix r assume "r \<in> set R"
    moreover have "set R = R_Score ` set ?scored"
      using sc(3) by (metis set_map)
    ultimately obtain row where "row \<in> set ?scored" "r = R_Score row" by blast
    with ap show "r \<noteq> None" by blast
  qed
  have recsome: "Recency (?rfm ! i) \<noteq> None" if "i < length ?rfm" for i
  proof
    assume "Recency (?rfm ! i) = None"
    then have "?x ! i = None" using that by simp
    then have "R ! i = None" using qcut_Inr(2)[OF R, of i] that by simp
    moreover have "R ! i \<in> set R" using that lR by simp
    ultimately show False using Rsome by blast
  qed
  have k1: "map rfm_row.CustomerKey ?rfm = sort (remdups (map sale.CustomerKey df))"
    by (simp add: rfm_table_def Let_def comp_def)
  have rows: "\<exists>latest last.
           nanmax (map OrderDate df) = Some latest
         \<and> nanmax (map OrderDate (customer_rows df (rfm_row.CustomerKey row))) = Some last
         \<and> Recency row = Some (days (latest + Timedelta_days 1 - last))
         \<and> 1 \<le> days (latest + Timedelta_days 1 - last)" if "row \<in> set out" for row
  proof -
    from that obtain i where i: "i < length out" "row = out ! i"
      by (auto simp: in_set_conv_nth)
    then have i': "i < length ?rfm" using len by simp
    have e1: "rfm_row.CustomerKey row = rfm_row.CustomerKey (?rfm ! i)"
      using i i' keys by (metis nth_map)
    have e2: "Recency row = Recency (?rfm ! i)"
      using i i' rec by (metis nth_map)
    obtain r where r: "Recency (?rfm ! i) = Some r"
      using recsome[OF i'] by auto
    have "?rfm ! i \<in> set ?rfm" using i' by simp
    from rfm_table_recency[OF this r] e1 e2 r show ?thesis by auto
  qed
  show ?thesis using keys k1 rows by auto
qed

text \<open>
  C7. The Recency of a customer is the number of days from that customer's latest order
  date to the snapshot date, which is the latest order date of all records plus one
  day; it is at least 1. This holds of every row of the aggregated table that has a
  Recency, and, when the analysis returns, of every row of its output, whose rows are
  the customers of the input.
\<close>

theorem recency_from_snapshot:
  "(\<forall>row\<in>set (rfm_table df). \<forall>r. Recency row = Some r \<longrightarrow>
      (\<exists>latest last.
           nanmax (map OrderDate df) = Some latest
         \<and> nanmax (map OrderDate (customer_rows df (rfm_row.CustomerKey row))) = Some last
         \<and> r = days (latest + Timedelta_days 1 - last)
         \<and> 1 \<le> r))
   \<and> (perform_rfm_analysis df = Inr out \<longrightarrow>
        map rfm_row.CustomerKey out = sort (remdups (map sale.CustomerKey df))
      \<and> (\<forall>row\<in>set out. \<exists>latest last.
           nanmax (map OrderDate df) = Some latest
         \<and> nanmax (map OrderDate (customer_rows df (rfm_row.CustomerKey row))) = Some last
         \<and> Recency row = Some (days (latest + Timedelta_days 1 - last))
         \<and> 1 \<le> days (latest + Timedelta_days 1 - last)))"
proof (intro conjI ballI allI impI)
  fix row r
  assume "row \<in> set (rfm_table df)" "Recency row = Some r"
  from rfm_table_recency[OF this]
  show "\<exists>latest last.
           nanmax (map OrderDate df) = Some latest
         \<and> nanmax (map OrderDate (customer_rows df (rfm_row.CustomerKey row))) = Some last
         \<and> r = days (latest + Timedelta_days 1 - last)
         \<and> 1 \<le> r"
    by blast
next
  assume "perform_rfm_analysis df = Inr out"
  from recency_of_output[OF this]
  show "map rfm_row.CustomerKey out = sort (remdups (map sale.CustomerKey df))"
    by (rule conjunct1)
next
  fix row
  assume "perform_rfm_analysis df = Inr out" "row \<in> set out"
  with recency_of_output[of df out]
  show "\<exists>latest last.
           nanmax (map OrderDate df) = Some latest
         \<and> nanmax (map OrderDate (customer_rows df (rfm_row.CustomerKey row))) = Some last
         \<and> Recency row = Some (days (latest + Timedelta_days 1 - last))
         \<and> 1 \<le> days (latest + Timedelta_days 1 - last)"
    by blast
qed

theorem recency_from_snapshot_witness:
  "perform_rfm_analysis two_customers
     = Inr
        [\<lparr>rfm_row.CustomerKey = 1, Recency = Some 2, Frequency = 2, Monetary = 10,
          R_Score = Some 1, F_Score = Some 5, M_Score = Some 5, RFM_Score = ''155'',
          Segment = ''Need Attention''\<rparr>,
         \<lparr>rfm_row.CustomerKey = 2, Recency = Some 1, Frequency = 1, Monetary = 7,
          R_Score = Some 5, F_Score = Some 1, M_Score = Some 1, RFM_Score = ''511'',
          Segment = ''New Customers''\<rparr>]
   \<and> map rfm_row.CustomerKey
        [\<lparr>rfm_row.CustomerKey = 1, Recency = Some 2, Frequency = 2, Monetary = 10,
          R_Score = Some 1, F_Score = Some 5, M_Score = Some 5, RFM_Score = ''155'',
          Segment = ''Need Attention''\<rparr>,
         \<lparr>rfm_row.CustomerKey = 2, Recency = Some 1, Frequency = 1, Monetary = 7,
          R_Score = Some 5, F_Score = Some 1, M_Score = Some 1, RFM_Score = ''511'',
          Segment = ''New Customers''\<rparr>]
     = sort (remdups (map sale.CustomerKey two_customers))"
proof -
  have e: "perform_rfm_analysis two_customers
     = Inr
        [\<lparr>rfm_row.CustomerKey = 1, Recency = Some 2, Frequency = 2, Monetary = 10,
          R_Score = Some 1, F_Score = Some 5, M_Score = Some 5, RFM_Score = ''155'',
          Segment = ''Need Attention''\<rparr>,
         \<lparr>rfm_row.CustomerKey = 2, Recency = Some 1, Frequency = 1, Monetary = 7,
          R_Score = Some 5, F_Score = Some 1, M_Score = Some 1, RFM_Score = ''511'',
          Segment = ''New Customers''\<rparr>]"
    by code_simp
  from conjunct2[OF recency_from_snapshot[of two_customers
        "[\<lparr>rfm_row.CustomerKey = 1, Recency = Some 2, Frequency = 2, Monetary = 10,
          R_Score = Some 1, F_Score = Some 5, M_Score = Some 5, RFM_Score = ''155'',
          Segment = ''Need Attention''\<rparr>,
         \<lparr>rfm_row.CustomerKey = 2, Recency = Some 1, Frequency = 1, Monetary = 7,
          R_Score = Some 5, F_Score = Some 1, M_Score = Some 1, RFM_Score = ''511'',
          Segment = ''New Customers''\<rparr>]"]] e
  have "map rfm_row.CustomerKey
        [\<lparr>rfm_row.CustomerKey = 1, Recency = Some 2, Frequency = 2, Monetary = 10,
          R_Score = Some 1, F_Score = Some 5, M_Score = Some 5, RFM_Score = ''155'',
          Segment = ''Need Attention''\<rparr>,
         \<lparr>rfm_row.CustomerKey = 2, Recency = Some 1, Frequency = 1, Monetary = 7,
          R_Score = Some 5, F_Score = Some 1, M_Score = Some 1, RFM_Score = ''511'',
          Segment = ''New Customers''\<rparr>]
     = sort (remdups (map sale.CustomerKey two_customers))"
    by blast
  with e show ?thesis by (rule conjI)
qed

lemma upt_6: "[0..<6] = [0, 1, 2, 3, 4, 5]"
  by (simp add: upt_rec)

lemma quantile_short:
  assumes "length vs \<le> 1"
  shows "quantile vs p = quantile vs p'"
proof (cases vs)
  case Nil
  then show ?thesis by (simp add: quantile_def)
next
  case (Cons a as)
  with assms have "as = []" by simp
  with Cons show ?thesis by (simp add: quantile_def Let_def)
qed

lemma length_dropna: "length (dropna xs) \<le> length xs"
  by (simp add: dropna_def)

lemma qcut_short:
  assumes "length x \<le> 1"
  shows "qcut x 5 labels = Inl ValueError"
proof -
  have "length (sort (dropna x)) \<le> 1"
    using assms length_dropna[of x] by simp
  then have "quantile (sort (dropna x)) (real 0 / real 5) = quantile (sort (dropna x)) (real 1 / real 5)"
    by (rule quantile_short)
  then have "\<not> distinct (qcut_bins x 5)"
    by (simp add: qcut_bins_def upt_6)
  then show ?thesis by (simp add: qcut_def)
qed

lemma length_rfm_table: "length (rfm_table df) = length (remdups (map sale.CustomerKey df))"
  by (simp add: rfm_table_def)

lemma single_customer_raises:
  assumes "length (remdups (map sale.CustomerKey df)) \<le> 1"
  shows "perform_rfm_analysis df = Inl ValueError"
proof -
  have "length (map (\<lambda>r. map_option real_of_int (Recency r)) (rfm_table df)) \<le> 1"
    using assms by (simp add: length_rfm_table)
  then have "qcut (map (\<lambda>r. map_option real_of_int (Recency r)) (rfm_table df)) 5 [5, 4, 3, 2, 1 :: int]
     = Inl ValueError" by (rule qcut_short)
  then show ?thesis by (simp add: perform_rfm_analysis_def)
qed

lemma qcut_error: "qcut x q labels = Inl e \<Longrightarrow> e = ValueError"
  by (simp add: qcut_def Let_def split: if_splits)

lemma assign_segment_error: "assign_segment row = Inl e \<Longrightarrow> e = ValueError"
  by (auto simp: assign_segment_def split: option.splits)

lemma apply_assign_segment_error: "apply_assign_segment rows = Inl e \<Longrightarrow> e = ValueError"
  by (induction rows) (auto split: sum.splits dest: assign_segment_error)

lemma perform_rfm_analysis_error: "perform_rfm_analysis df = Inl e \<Longrightarrow> e = ValueError"
  by (auto simp: perform_rfm_analysis_def Let_def split: sum.splits
        dest: qcut_error apply_assign_segment_error)

lemma searchsorted_left_le: "searchsorted_left bins x \<le> length bins"
  by (simp add: searchsorted_left_def length_takeWhile_le)

lemma bins_to_cuts_label:
  assumes "bins_to_cuts bins labels il x = Some l" "length bins = Suc (length labels)"
  shows "l \<in> set labels"
proof -
  define ids where "ids = (if il \<and> bins \<noteq> [] \<and> x = hd bins then 1 else searchsorted_left bins x)"
  have "ids \<le> length bins"
    using searchsorted_left_le[of bins x] assms(2) by (simp add: ids_def)
  moreover from assms(1) have "ids \<noteq> length bins" "ids \<noteq> 0" "l = labels ! (ids - 1)"
    by (auto simp: bins_to_cuts_def Let_def ids_def split: if_splits)
  ultimately have "ids - 1 < length labels" using assms(2) by simp
  with \<open>l = labels ! (ids - 1)\<close> show ?thesis by simp
qed

lemma qcut_label:
  assumes "qcut x 5 labels = Inr R" "length labels = 5" "Some l \<in> set R"
  shows "l \<in> set labels"
proof -
  from assms(1) have R: "R = map (\<lambda>v. bins_to_cuts (map to_float (qcut_bins x 5)) labels True (to_float v)) x"
    by (simp add: qcut_def Let_def split: if_splits)
  with assms(3) obtain v where "bins_to_cuts (map to_float (qcut_bins x 5)) labels True (to_float v) = Some l"
    by auto
  moreover have "length (map to_float (qcut_bins x 5)) = Suc (length labels)"
    using assms(2) by (simp add: qcut_bins_def)
  ultimately show ?thesis by (rule bins_to_cuts_label)
qed

lemma assign_segment_scores:
  "assign_segment row = Inr seg \<Longrightarrow>
     R_Score row \<noteq> None \<and> F_Score row \<noteq> None \<and> M_Score row \<noteq> None"
  by (auto simp: assign_segment_def split: option.splits)

lemma apply_assign_segment_scores:
  "apply_assign_segment rows = Inr out \<Longrightarrow>
     map R_Score out = map R_Score rows
   \<and> map F_Score out = map F_Score rows
   \<and> map M_Score out = map M_Score rows
   \<and> (\<forall>row\<in>set rows. R_Score row \<noteq> None \<and> F_Score row \<noteq> None \<and> M_Score row \<noteq> None)"
proof (induction rows arbitrary: out)
  case Nil
  then show ?case by simp
next
  case (Cons row rows)
  then show ?case
    by (auto simp: rfm_scored.extend_def split: sum.splits dest: assign_segment_scores)
qed

lemma scored_rows_FM:
  assumes "length R = length rfm" "length F = length rfm" "length M = length rfm"
  shows "map F_Score (map (\<lambda>(row, r, f, m). add_scores row r f m) (zip rfm (zip R (zip F M)))) = F"
    and "map M_Score (map (\<lambda>(row, r, f, m). add_scores row r f m) (zip rfm (zip R (zip F M)))) = M"
    and "map R_Score (map (\<lambda>(row, r, f, m). add_scores row r f m) (zip rfm (zip R (zip F M)))) = R"
  using assms by (auto intro!: nth_equalityI simp: add_scores_def rfm_row.extend_def rfm_scored.fields_def)

lemma score_in_labels:
  assumes "qcut x 5 labels = Inr C" "length labels = 5" "c \<in> set C" "c \<noteq> None"
  shows "c \<in> Some ` set labels"
proof -
  from assms(4) obtain l where "c = Some l" by auto
  with qcut_label[OF assms(1,2)] assms(3) show ?thesis by auto
qed

lemma perform_rfm_analysis_scores:
  assumes "perform_rfm_analysis df = Inr out" "row \<in> set out"
  shows "R_Score row \<in> Some ` {1, 2, 3, 4, 5}
       \<and> F_Score row \<in> Some ` {1, 2, 3, 4, 5}
       \<and> M_Score row \<in> Some ` {1, 2, 3, 4, 5}"
proof -
  let ?rfm = "rfm_table df"
  let ?x = "map (\<lambda>r. map_option real_of_int (Recency r)) ?rfm"
  from assms(1) obtain R F M where
    R: "qcut ?x 5 [5, 4, 3, 2, 1 :: int] = Inr R" and
    F: "qcut (map Some (rank_first (map Frequency ?rfm))) 5 [1, 2, 3, 4, 5 :: int] = Inr F" and
    M: "qcut (map Some (rank_first (map Monetary ?rfm))) 5 [1, 2, 3, 4, 5 :: int] = Inr M" and
    app: "apply_assign_segment
            (map (\<lambda>(row, r, f, m). add_scores row r f m) (zip ?rfm (zip R (zip F M)))) = Inr out"
    by (auto simp: perform_rfm_analysis_def Let_def split: sum.splits)
  let ?scored = "map (\<lambda>(row, r, f, m). add_scores row r f m) (zip ?rfm (zip R (zip F M)))"
  have lR: "length R = length ?rfm" using qcut_Inr(1)[OF R] by simp
  have lF: "length F = length ?rfm" using qcut_Inr(1)[OF F] by (simp add: rank_first_def)
  have lM: "length M = length ?rfm" using qcut_Inr(1)[OF M] by (simp add: rank_first_def)
  note sc = scored_rows_FM[OF lR lF lM]
  note ap = apply_assign_segment_scores[OF app]
  have oR: "map R_Score out = R" and oF: "map F_Score out = F" and oM: "map M_Score out = M"
    using ap sc by simp_all
  have some: "\<forall>r\<in>set out. R_Score r \<noteq> None \<and> F_Score r \<noteq> None \<and> M_Score r \<noteq> None"
  proof
    fix r assume r: "r \<in> set out"
    have "R_Score r \<in> set (map R_Score ?scored)" "F_Score r \<in> set (map F_Score ?scored)"
         "M_Score r \<in> set (map M_Score ?scored)"
      using r ap by (metis imageI set_map)+
    then obtain a b c where "a \<in> set ?scored" "R_Score r = R_Score a"
        "b \<in> set ?scored" "F_Score r = F_Score b" "c \<in> set ?scored" "M_Score r = M_Score c"
      unfolding set_map by blast
    with ap show "R_Score r \<noteq> None \<and> F_Score r \<noteq> None \<and> M_Score r \<noteq> None"
      by metis
  qed
  have "R_Score row \<in> set R" "F_Score row \<in> set F" "M_Score row \<in> set M"
    using assms(2) oR oF oM by (metis imageI set_map)+
  moreover have "R_Score row \<noteq> None" "F_Score row \<noteq> None" "M_Score row \<noteq> None"
    using some assms(2) by blast+
  ultimately have "R_Score row \<in> Some ` set [5, 4, 3, 2, 1]"
      "F_Score row \<in> Some ` set [1, 2, 3, 4, 5]" "M_Score row \<in> Some ` set [1, 2, 3, 4, 5]"
    using score_in_labels[OF R] score_in_labels[OF F] score_in_labels[OF M] by simp_all
  then show ?thesis by auto
qed

text \<open>
  What the Frequency and Monetary lines do, for any column of at least two values: the
  ranks by \<^verbatim>\<open>rank(method='first')\<close> are a permutation of 1 to \<open>n\<close>, the quantile
  edges of the ranks are pairwise distinct, and the five scores share the customers
  evenly.
\<close>

lemma count_below:
  "length (filter (below xs i) [0..<length xs]) = card {j. j < length xs \<and> below xs i j}"
proof -
  have "{x. below xs i x} \<inter> set [0..<length xs] = {j. j < length xs \<and> below xs i j}"
    by auto
  then show ?thesis
    by (simp add: distinct_length_filter)
qed

lemma nat_ranks_card:
  "nat_ranks xs = map (\<lambda>i. Suc (card {k. k < length xs \<and> below xs i k})) [0..<length xs]"
  by (simp add: nat_ranks_def count_below)

lemma rank_first_nth:
  "i < length xs \<Longrightarrow>
     rank_first xs ! i = real (Suc (card {j. j < length xs \<and> below xs i j}))"
proof -
  assume i: "i < length xs"
  have "below xs i = (\<lambda>j. xs ! j < xs ! i \<or> (xs ! j = xs ! i \<and> j < i))"
    by (auto simp: below_def fun_eq_iff)
  then show ?thesis using i count_below[of xs i] by (simp add: rank_first_def)
qed

lemma below_psubset:
  assumes "i < length xs" "below xs j i"
  shows "{k. k < length xs \<and> below xs i k} \<subset> {k. k < length xs \<and> below xs j k}"
proof
  show "{k. k < length xs \<and> below xs i k} \<subseteq> {k. k < length xs \<and> below xs j k}"
    using assms(2) by (auto simp: below_def)
  have "i \<in> {k. k < length xs \<and> below xs j k}" using assms by simp
  moreover have "i \<notin> {k. k < length xs \<and> below xs i k}" by (simp add: below_def)
  ultimately show "{k. k < length xs \<and> below xs i k} \<noteq> {k. k < length xs \<and> below xs j k}"
    by blast
qed

lemma below_total: "i \<noteq> j \<Longrightarrow> below xs i j \<or> below xs j i"
  by (auto simp: below_def)

lemma card_below_inj:
  assumes "i < length xs" "j < length xs" "i \<noteq> j"
  shows "card {k. k < length xs \<and> below xs i k} \<noteq> card {k. k < length xs \<and> below xs j k}"
proof -
  have fin: "finite {k. k < length xs \<and> below xs l k}" for l by simp
  from below_total[OF assms(3), of xs] show ?thesis
  proof
    assume "below xs i j"
    from psubset_card_mono[OF fin below_psubset[OF assms(2) this]] show ?thesis by simp
  next
    assume "below xs j i"
    from psubset_card_mono[OF fin below_psubset[OF assms(1) this]] show ?thesis by simp
  qed
qed

lemma card_below_less:
  assumes "i < length xs"
  shows "card {k. k < length xs \<and> below xs i k} < length xs"
proof -
  have "{k. k < length xs \<and> below xs i k} \<subset> {k. k < length xs}"
    using assms by (auto simp: below_def)
  from psubset_card_mono[OF _ this] show ?thesis by simp
qed

lemma length_rank_first: "length (rank_first xs) = length xs"
  by (simp add: rank_first_def)

lemma rank_first_nat_ranks: "rank_first xs = map real (nat_ranks xs)"
proof (rule nth_equalityI)
  show "length (rank_first xs) = length (map real (nat_ranks xs))"
    by (simp add: length_rank_first nat_ranks_card)
  fix i assume "i < length (rank_first xs)"
  then have "i < length xs" by (simp add: length_rank_first)
  then show "rank_first xs ! i = map real (nat_ranks xs) ! i"
    by (simp add: rank_first_nth nat_ranks_card)
qed

lemma distinct_nat_ranks: "distinct (nat_ranks xs)"
  unfolding nat_ranks_card distinct_map
  by (auto simp: inj_on_def dest: card_below_inj)

lemma set_nat_ranks: "set (nat_ranks xs) = {1..length xs}"
proof -
  have sub: "set (nat_ranks xs) \<subseteq> {1..length xs}"
    using card_below_less[of _ xs] by (auto simp: nat_ranks_card Suc_le_eq)
  have "card (set (nat_ranks xs)) = length xs"
    using distinct_card[OF distinct_nat_ranks, of xs] by (simp add: nat_ranks_card)
  then show ?thesis
    using sub by (intro card_subset_eq) simp_all
qed

lemma sort_rank_first: "sort (rank_first xs) = map real [1..<Suc (length xs)]"
proof (rule sorted_distinct_set_unique)
  show "sorted (sort (rank_first xs))" by simp
  show "distinct (sort (rank_first xs))"
    by (simp add: rank_first_nat_ranks distinct_map distinct_nat_ranks inj_on_def)
  show "sorted (map real [1..<Suc (length xs)])"
    by (simp add: sorted_map sorted_wrt_iff_nth_less del: upt_Suc)
  show "distinct (map real [1..<Suc (length xs)])"
    by (simp add: distinct_map inj_on_def del: upt_Suc)
  show "set (sort (rank_first xs)) = set (map real [1..<Suc (length xs)])"
    by (simp add: rank_first_nat_ranks set_nat_ranks atLeastLessThanSuc_atLeastAtMost del: upt_Suc)
qed

lemma quantile_ranks:
  assumes "0 \<le> p" "p \<le> 1" "0 < n"
  shows "quantile (map real [1..<Suc n]) p = Some (1 + p * real (n - 1))"
proof -
  let ?vs = "map real [1..<Suc n]"
  define h where "h = p * real (n - 1)"
  define j where "j = nat \<lfloor>h\<rfloor>"
  have h0: "0 \<le> h" using assms(1) by (simp add: h_def)
  have hn: "h \<le> real (n - 1)"
    using assms(1,2) by (simp add: h_def mult_left_le_one_le)
  have jh: "real j \<le> h" using h0 by (simp add: j_def)
  have hj: "h < real j + 1" using h0 by (simp add: j_def)
  have jn: "j \<le> n - 1" using jh hn by linarith
  have len: "length ?vs = n" by simp
  have nth: "?vs ! k = real (Suc k)" if "k < n" for k
    using that by (simp del: upt_Suc)
  have ne: "?vs \<noteq> []" using assms(3) by (simp del: upt_Suc)
  have "(if j + 1 < n then ?vs ! j + (?vs ! (j + 1) - ?vs ! j) * (h - real j) else ?vs ! j) = 1 + h"
  proof (cases "j + 1 < n")
    case True
    then show ?thesis using nth[of j] nth[of "j + 1"] by simp
  next
    case False
    then have "j = n - 1" using jn assms(3) by simp
    moreover then have "h = real (n - 1)" using jh hn by simp
    ultimately show ?thesis using nth[of "n - 1"] assms(3) by simp
  qed
  then show ?thesis
    using ne unfolding quantile_def Let_def len h_def[symmetric] j_def[symmetric]
    by (simp del: upt_Suc)
qed

lemma dropna_map_Some: "dropna (map Some xs) = xs"
  by (induction xs) (simp_all add: dropna_def)

lemma qcut_bins_ranks:
  assumes "xs \<noteq> []"
  shows "qcut_bins (map Some (rank_first xs)) 5 =
           map (\<lambda>i. Some (1 + real i / 5 * real (length xs - 1))) [0..<6]"
proof -
  have n: "0 < length xs" using assms by simp
  have q: "quantile (map real [1..<Suc (length xs)]) (real i / real 5)
             = Some (1 + real i / 5 * real (length xs - 1))"
    if "i \<in> set [0..<6]" for i
    using that n by (intro quantile_ranks[THEN trans]) simp_all
  have "qcut_bins (map Some (rank_first xs)) 5 =
      map (\<lambda>i. quantile (map real [1..<Suc (length xs)]) (real i / real 5)) [0..<6]"
    by (simp add: qcut_bins_def dropna_map_Some sort_rank_first del: upt_Suc)
  also have "\<dots> = map (\<lambda>i. Some (1 + real i / 5 * real (length xs - 1))) [0..<6]"
    using q by (intro map_cong refl)
  finally show ?thesis .
qed

lemma bin_of_rank:
  assumes "t \<le> m" "0 < m"
  shows "bins_to_cuts (map to_float (map (\<lambda>i. Some (1 + real i / 5 * real m)) [0..<6]))
           [1, 2, 3, 4, 5 :: int] True (to_float (Some (real (Suc t))))
         = Some (rank_quintile (Suc m) (Suc t))"
proof -
  have c: "(real k * real m < 5 * real t) = (k * m < 5 * t)" for k
    by (metis of_nat_less_iff of_nat_mult of_nat_numeral)
  have c1: "(real m < 5 * real t) = (m < 5 * t)"
    using c[of 1] by simp
  have le: "real t \<le> real m" using assms(1) by simp
  show ?thesis
    using assms le c[of 2] c[of 3] c[of 4] c1
    by (auto simp: upt_6 bins_to_cuts_def searchsorted_left_def to_float_def isnull_def
          rank_quintile_def Let_def not_le not_less)
qed

lemma distinct_rank_bins:
  assumes "2 \<le> length xs"
  shows "distinct (qcut_bins (map Some (rank_first xs)) 5)"
proof -
  have "xs \<noteq> []" using assms by auto
  moreover have "inj_on (\<lambda>i. Some (1 + real i / 5 * real (length xs - 1))) (set [0..<6])"
    using assms by (auto simp: inj_on_def)
  ultimately show ?thesis
    by (simp add: qcut_bins_ranks distinct_map del: upt_Suc)
qed

lemma qcut_rank_first:
  assumes "2 \<le> length xs"
  shows "qcut (map Some (rank_first xs)) 5 [1, 2, 3, 4, 5 :: int]
           = Inr (map (\<lambda>r. Some (rank_quintile (length xs) r)) (nat_ranks xs))"
proof -
  have ne: "xs \<noteq> []" using assms by auto
  obtain m where m: "length xs = Suc m" "0 < m"
    using assms by (cases "length xs") auto
  have "bins_to_cuts (map to_float (qcut_bins (map Some (rank_first xs)) 5))
           [1, 2, 3, 4, 5 :: int] True (to_float (Some (real r)))
         = Some (rank_quintile (length xs) r)" if "r \<in> set (nat_ranks xs)" for r
  proof -
    from that have "1 \<le> r" "r \<le> Suc m" by (simp_all add: set_nat_ranks m)
    then obtain t where t: "r = Suc t" "t \<le> m" by (cases r) auto
    show ?thesis
      using bin_of_rank[OF t(2) m(2)] by (simp add: qcut_bins_ranks[OF ne] m t del: upt_Suc)
  qed
  then have "map (\<lambda>v. bins_to_cuts (map to_float (qcut_bins (map Some (rank_first xs)) 5))
           [1, 2, 3, 4, 5 :: int] True (to_float v)) (map Some (rank_first xs))
         = map (\<lambda>r. Some (rank_quintile (length xs) r)) (nat_ranks xs)"
    by (simp add: rank_first_nat_ranks comp_def)
  then show ?thesis
    using distinct_rank_bins[OF assms] by (simp add: qcut_def Let_def)
qed

lemma count_nat_ranks:
  "length (filter P (nat_ranks xs)) = card {r. 1 \<le> r \<and> r \<le> length xs \<and> P r}"
proof -
  have "{x. P x} \<inter> set (nat_ranks xs) = {r. 1 \<le> r \<and> r \<le> length xs \<and> P r}"
    by (auto simp: set_nat_ranks)
  then show ?thesis
    by (simp add: distinct_length_filter[OF distinct_nat_ranks])
qed

lemma rank_quintile_le:
  assumes "k \<in> {1, 2, 3, 4}"
  shows "rank_quintile n r \<le> int k \<longleftrightarrow> 5 * (r - 1) \<le> k * (n - 1)"
  using assms by (auto simp: rank_quintile_def)

lemma card_ranks_upto:
  assumes "k \<le> 5" "0 < n"
  shows "card {r. 1 \<le> r \<and> r \<le> n \<and> 5 * (r - 1) \<le> k * (n - 1)} = Suc ((k * (n - 1)) div 5)"
proof -
  have "(k * (n - 1)) div 5 \<le> n - 1" using assms(1)
    by (metis div_le_mono div_mult_self1_is_m mult.commute mult_le_mono1 zero_less_numeral)
  then have "{r. 1 \<le> r \<and> r \<le> n \<and> 5 * (r - 1) \<le> k * (n - 1)} = {1..Suc ((k * (n - 1)) div 5)}"
    using assms(2) by (auto simp: le_div_geq)
  then show ?thesis by simp
qed

lemma rank_quintile_range: "1 \<le> rank_quintile n r \<and> rank_quintile n r \<le> 5"
  by (simp add: rank_quintile_def)

lemma card_quintile_upto:
  assumes "k \<in> {1, 2, 3, 4, 5}" "0 < n"
  shows "card {r. 1 \<le> r \<and> r \<le> n \<and> rank_quintile n r \<le> int k} = Suc ((k * (n - 1)) div 5)"
proof -
  have "{r. 1 \<le> r \<and> r \<le> n \<and> rank_quintile n r \<le> int k}
      = {r. 1 \<le> r \<and> r \<le> n \<and> 5 * (r - 1) \<le> k * (n - 1)}"
  proof (cases "k = 5")
    case True
    then show ?thesis using rank_quintile_range[of n] by auto
  next
    case False
    then have "k \<in> {1, 2, 3, 4}" using assms(1) by auto
    then show ?thesis by (simp add: rank_quintile_le)
  qed
  moreover have "k \<le> 5" using assms(1) by auto
  ultimately show ?thesis using card_ranks_upto[OF _ assms(2)] by simp
qed

lemma bin_size:
  assumes "k \<in> {1, 2, 3, 4, 5}" "xs \<noteq> []"
  shows "length (filter (\<lambda>r. rank_quintile (length xs) r = int k) (nat_ranks xs))
       = (if k = 1 then Suc ((length xs - 1) div 5)
          else (k * (length xs - 1)) div 5 - ((k - 1) * (length xs - 1)) div 5)"
proof -
  let ?n = "length xs"
  let ?A = "\<lambda>j. {r. 1 \<le> r \<and> r \<le> ?n \<and> rank_quintile ?n r \<le> int j}"
  have n: "0 < ?n" using assms(2) by simp
  have eq: "{r. 1 \<le> r \<and> r \<le> ?n \<and> rank_quintile ?n r = int k} = ?A k - ?A (k - 1)"
    using assms(1) by auto
  have sub: "?A (k - 1) \<subseteq> ?A k" by auto
  have fin: "finite (?A j)" for j by simp
  have "card {r. 1 \<le> r \<and> r \<le> ?n \<and> rank_quintile ?n r = int k} = card (?A k) - card (?A (k - 1))"
    unfolding eq using sub fin by (intro card_Diff_subset) auto
  moreover have "card (?A k) = Suc ((k * (?n - 1)) div 5)"
    using card_quintile_upto[OF assms(1) n] .
  moreover have "card (?A (k - 1)) = (if k = 1 then 0 else Suc (((k - 1) * (?n - 1)) div 5))"
  proof (cases "k = 1")
    case True
    have "?A 0 = {}" using rank_quintile_range[of ?n] by (auto simp: not_le) (smt (verit))
    with True show ?thesis by simp
  next
    case False
    then have "k - 1 \<in> {1, 2, 3, 4, 5}" using assms(1) by auto
    from card_quintile_upto[OF this n] False show ?thesis by simp
  qed
  ultimately show ?thesis
    by (simp add: count_nat_ranks)
qed

lemma div5_split: "(k * m) div 5 = k * (m div 5) + (k * (m mod 5)) div (5::nat)"
proof -
  have "k * m = k * (m mod 5) + (k * (m div 5)) * 5"
    by (metis add.commute distrib_left mult.assoc mult.commute mult_div_mod_eq)
  then show ?thesis by (metis add.commute div_mult_self3 zero_neq_numeral)
qed

lemma quintile_sizes:
  assumes "k \<in> {2, 3, 4, 5 :: nat}"
  shows "m div 5 \<le> (k * m) div 5 - ((k - 1) * m) div 5
       \<and> (k * m) div 5 - ((k - 1) * m) div 5 \<le> Suc (m div 5)
       \<and> (4 \<le> m \<longrightarrow> 1 \<le> (k * m) div 5 - ((k - 1) * m) div 5)"
proof -
  define q where "q = m div 5"
  define t where "t = m mod 5"
  have t: "t \<in> {0, 1, 2, 3, 4}" unfolding t_def by (simp add: insert_iff) presburger
  have m: "4 \<le> m \<Longrightarrow> 1 \<le> q \<or> t = 4" unfolding q_def t_def by presburger
  have s: "(j * m) div 5 = j * q + (j * t) div 5" for j
    unfolding q_def t_def by (rule div5_split)
  show ?thesis
    using assms t m unfolding s q_def[symmetric]
    by (elim insertE emptyE) (simp_all add: algebra_simps)
qed

lemma bin_size_balanced:
  assumes "k \<in> {1, 2, 3, 4, 5}" "xs \<noteq> []"
  shows "(length xs - 1) div 5 \<le> length (filter (\<lambda>r. rank_quintile (length xs) r = int k) (nat_ranks xs))
       \<and> length (filter (\<lambda>r. rank_quintile (length xs) r = int k) (nat_ranks xs)) \<le> Suc ((length xs - 1) div 5)
       \<and> (5 \<le> length xs \<longrightarrow> 1 \<le> length (filter (\<lambda>r. rank_quintile (length xs) r = int k) (nat_ranks xs)))"
proof (cases "k = 1")
  case True
  then show ?thesis unfolding bin_size[OF assms] by simp
next
  case False
  then have k: "k \<in> {2, 3, 4, 5}" using assms(1) by auto
  have "5 \<le> length xs \<Longrightarrow> 4 \<le> length xs - 1" by simp
  with quintile_sizes[OF k, of "length xs - 1"] False show ?thesis
    unfolding bin_size[OF assms] by auto
qed

lemma rank_quintile_mono: "r \<le> r' \<Longrightarrow> rank_quintile n r \<le> rank_quintile n r'"
  by (auto simp: rank_quintile_def)

lemma nat_ranks_nth:
  "i < length xs \<Longrightarrow> nat_ranks xs ! i = Suc (card {k. k < length xs \<and> below xs i k})"
  by (simp add: nat_ranks_card)

lemma nat_ranks_mono:
  assumes "i < length xs" "j < length xs" "below xs j i"
  shows "nat_ranks xs ! i < nat_ranks xs ! j"
proof -
  have "finite {k. k < length xs \<and> below xs j k}" by simp
  from psubset_card_mono[OF this below_psubset[OF assms(1,3)]]
  show ?thesis using assms(1,2) by (simp add: nat_ranks_nth)
qed

lemma length_nat_ranks: "length (nat_ranks xs) = length xs"
  by (simp add: nat_ranks_card)

lemma rank_quintiles_balanced:
  assumes "2 \<le> length xs"
  shows "\<exists>scores.
      qcut (map Some (rank_first xs)) 5 [1, 2, 3, 4, 5 :: int] = Inr (map Some scores)
    \<and> length scores = length xs
    \<and> (\<forall>k\<in>{1, 2, 3, 4, 5 :: nat}.
          (length xs - 1) div 5 \<le> length (filter (\<lambda>s. s = int k) scores)
        \<and> length (filter (\<lambda>s. s = int k) scores) \<le> Suc ((length xs - 1) div 5)
        \<and> (5 \<le> length xs \<longrightarrow> 1 \<le> length (filter (\<lambda>s. s = int k) scores)))
    \<and> (\<forall>i j. i < length xs \<and> j < length xs
          \<and> (xs ! i < xs ! j \<or> (xs ! i = xs ! j \<and> i < j))
        \<longrightarrow> scores ! i \<le> scores ! j)"
proof -
  let ?n = "length xs"
  let ?scores = "map (rank_quintile ?n) (nat_ranks xs)"
  have ne: "xs \<noteq> []" using assms by auto
  have q: "qcut (map Some (rank_first xs)) 5 [1, 2, 3, 4, 5 :: int] = Inr (map Some ?scores)"
    using qcut_rank_first[OF assms] by (simp add: comp_def)
  have l: "length ?scores = ?n" by (simp add: length_nat_ranks)
  have c: "length (filter (\<lambda>s. s = int k) ?scores)
         = length (filter (\<lambda>r. rank_quintile ?n r = int k) (nat_ranks xs))" for k
    by (simp add: filter_map comp_def)
  have b: "(?n - 1) div 5 \<le> length (filter (\<lambda>s. s = int k) ?scores)
        \<and> length (filter (\<lambda>s. s = int k) ?scores) \<le> Suc ((?n - 1) div 5)
        \<and> (5 \<le> ?n \<longrightarrow> 1 \<le> length (filter (\<lambda>s. s = int k) ?scores))"
    if "k \<in> {1, 2, 3, 4, 5}" for k
    unfolding c using bin_size_balanced[OF that ne] .
  have m: "?scores ! i \<le> ?scores ! j"
    if "i < ?n" "j < ?n" "xs ! i < xs ! j \<or> (xs ! i = xs ! j \<and> i < j)" for i j
  proof -
    have "below xs j i" using that(3) by (simp add: below_def)
    from nat_ranks_mono[OF that(1,2) this] have "nat_ranks xs ! i \<le> nat_ranks xs ! j" by simp
    then show ?thesis using that(1,2) by (simp add: length_nat_ranks rank_quintile_mono)
  qed
  show ?thesis
    using q l b m by (intro exI[of _ ?scores]) blast
qed

text \<open>
  C3, at the input where the code departs from it. Five customers whose latest orders fall
  on the same day all have Recency 1. Frequency (1 for each) and Monetary go through
  \<^verbatim>\<open>rank(method='first')\<close> and get the five scores 1 to 5, one customer per bin;
  Recency is binned on its raw values, its six quantile edges coincide, and
  \<^verbatim>\<open>pd.qcut\<close> raises \<^verbatim>\<open>ValueError\<close>, which ends the analysis.
\<close>

theorem tied_recency_raises:
  "map Recency (rfm_table five_customers_same_day) = [Some 1, Some 1, Some 1, Some 1, Some 1]
   \<and> map Frequency (rfm_table five_customers_same_day) = [1, 1, 1, 1, 1]
   \<and> qcut (map Some (rank_first (map Frequency (rfm_table five_customers_same_day)))) 5
        [1, 2, 3, 4, 5 :: int]
     = Inr [Some 1, Some 2, Some 3, Some 4, Some 5]
   \<and> qcut (map Some (rank_first (map Monetary (rfm_table five_customers_same_day)))) 5
        [1, 2, 3, 4, 5 :: int]
     = Inr [Some 1, Some 2, Some 3, Some 4, Some 5]
   \<and> qcut_bins (map (\<lambda>r. map_option real_of_int (Recency r))
        (rfm_table five_customers_same_day)) 5
     = [Some 1, Some 1, Some 1, Some 1, Some 1, Some 1]
   \<and> qcut (map (\<lambda>r. map_option real_of_int (Recency r)) (rfm_table five_customers_same_day)) 5
        [5, 4, 3, 2, 1 :: int]
     = Inl ValueError
   \<and> perform_rfm_analysis five_customers_same_day = Inl ValueError"
  by code_simp

text \<open>
  When the scoring returns: a value that is present always gets a score, so the analysis
  returns exactly when no quantile edges coincide and no Recency is missing.
\<close>

lemma quantile_0: "vs \<noteq> [] \<Longrightarrow> quantile vs 0 = Some (vs ! 0)"
  by (simp add: quantile_def Let_def)

lemma quantile_1: "vs \<noteq> [] \<Longrightarrow> quantile vs 1 = Some (vs ! (length vs - 1))"
  by (simp add: quantile_def Let_def)

lemma sorted_bounds:
  assumes "sorted vs" "v \<in> set vs"
  shows "vs ! 0 \<le> v \<and> v \<le> vs ! (length vs - 1)"
proof -
  from assms(2) obtain i where i: "i < length vs" "v = vs ! i"
    by (auto simp: in_set_conv_nth)
  have "vs ! 0 \<le> vs ! i" using assms(1) i(1) by (intro sorted_nth_mono) simp_all
  moreover have "vs ! i \<le> vs ! (length vs - 1)"
    using assms(1) i(1) by (intro sorted_nth_mono) simp_all
  ultimately show ?thesis using i(2) by simp
qed

lemma qcut_bins_ends:
  assumes "x ! i = Some v" "i < length x"
  shows "\<exists>lo a b c d hi. qcut_bins x 5 = [Some lo, a, b, c, d, Some hi] \<and> lo \<le> v \<and> v \<le> hi"
proof -
  let ?vs = "sort (dropna x)"
  have "Some v \<in> set x" using assms by (metis nth_mem)
  then have v: "v \<in> set ?vs" by (simp add: set_dropna)
  then have ne: "?vs \<noteq> []" by (metis empty_iff list.set(1))
  have b: "?vs ! 0 \<le> v \<and> v \<le> ?vs ! (length ?vs - 1)"
    using sorted_bounds[OF _ v] by simp
  have "qcut_bins x 5 = [quantile ?vs 0, quantile ?vs (1 / 5), quantile ?vs (2 / 5),
      quantile ?vs (3 / 5), quantile ?vs (4 / 5), quantile ?vs 1]"
    by (simp add: qcut_bins_def upt_6)
  then show ?thesis
    using b by (simp add: quantile_0[OF ne] quantile_1[OF ne])
qed

lemma bins_to_cuts_in_range:
  assumes "lo \<le> v" "v \<le> hi"
  shows "bins_to_cuts (map to_float [Some lo, a, b, c, d, Some hi]) labels True (to_float (Some v)) \<noteq> None"
proof -
  let ?bins = "map to_float [Some lo, a, b, c, d, Some hi]"
  have "\<not> flt (Fin hi) (Fin v)" using assms(2) by simp
  then have "\<not> (\<forall>e\<in>set ?bins. flt e (Fin v))" by (auto simp: to_float_def)
  then have "takeWhile (\<lambda>e. flt e (Fin v)) ?bins \<noteq> ?bins"
    by (simp only: takeWhile_eq_all_conv not_False_eq_True)
  then have "length (takeWhile (\<lambda>e. flt e (Fin v)) ?bins) \<noteq> length ?bins"
    by (metis length_takeWhile_le takeWhile_eq_take take_all le_antisym nat_le_linear)
  then have up: "searchsorted_left ?bins (Fin v) \<noteq> 6"
    by (simp add: searchsorted_left_def)
  have lo: "v \<noteq> lo \<Longrightarrow> searchsorted_left ?bins (Fin v) \<noteq> 0"
    using assms(1) by (simp add: searchsorted_left_def to_float_def)
  show ?thesis
    using up lo by (auto simp: bins_to_cuts_def Let_def to_float_def isnull_def)
qed

lemma qcut_Some:
  assumes "qcut x 5 labels = Inr R" "i < length x" "x ! i = Some v"
  shows "R ! i \<noteq> None"
proof -
  from qcut_bins_ends[OF assms(3,2)] obtain lo a b c d hi where
    bins: "qcut_bins x 5 = [Some lo, a, b, c, d, Some hi]" and lv: "lo \<le> v" "v \<le> hi"
    by blast
  from assms(1) have "R = map (\<lambda>v. bins_to_cuts (map to_float (qcut_bins x 5)) labels True (to_float v)) x"
    by (simp add: qcut_def Let_def split: if_splits)
  then have "R ! i = bins_to_cuts (map to_float [Some lo, a, b, c, d, Some hi]) labels True (to_float (Some v))"
    using assms(2,3) by (simp add: bins)
  then show ?thesis using bins_to_cuts_in_range[OF lv] by simp
qed

lemma apply_assign_segment_total:
  assumes "\<forall>row\<in>set rows. R_Score row \<noteq> None \<and> F_Score row \<noteq> None \<and> M_Score row \<noteq> None"
  shows "\<exists>out. apply_assign_segment rows = Inr out"
  using assms
proof (induction rows)
  case Nil
  then show ?case by simp
next
  case (Cons row rows)
  then obtain out where "apply_assign_segment rows = Inr out" by auto
  moreover obtain seg where "assign_segment row = Inr seg"
    using Cons.prems by (auto simp: assign_segment_def split: option.splits)
  ultimately show ?case by simp
qed

lemma perform_rfm_analysis_returnsD:
  assumes "perform_rfm_analysis df = Inr out"
  shows "2 \<le> length (remdups (map sale.CustomerKey df))
   \<and> distinct (qcut_bins (map (\<lambda>r. map_option real_of_int (Recency r)) (rfm_table df)) 5)
   \<and> (\<forall>row\<in>set (rfm_table df). Recency row \<noteq> None)"
  (is "?n2 \<and> ?d \<and> ?p")
proof -
  let ?rfm = "rfm_table df"
  let ?x = "map (\<lambda>r. map_option real_of_int (Recency r)) ?rfm"
  note out = assms
  from out obtain R F M where
    R: "qcut ?x 5 [5, 4, 3, 2, 1 :: int] = Inr R" and
    F: "qcut (map Some (rank_first (map Frequency ?rfm))) 5 [1, 2, 3, 4, 5 :: int] = Inr F" and
    M: "qcut (map Some (rank_first (map Monetary ?rfm))) 5 [1, 2, 3, 4, 5 :: int] = Inr M" and
    app: "apply_assign_segment
            (map (\<lambda>(row, r, f, m). add_scores row r f m) (zip ?rfm (zip R (zip F M)))) = Inr out"
    by (auto simp: perform_rfm_analysis_def Let_def split: sum.splits)
  have lR: "length R = length ?rfm" using qcut_Inr(1)[OF R] by simp
  have lF: "length F = length ?rfm" using qcut_Inr(1)[OF F] by (simp add: rank_first_def)
  have lM: "length M = length ?rfm" using qcut_Inr(1)[OF M] by (simp add: rank_first_def)
  have n2: ?n2
  proof (rule ccontr)
    assume "\<not> ?n2"
    then have "length (remdups (map sale.CustomerKey df)) \<le> 1" by simp
    from single_customer_raises[OF this] out show False by simp
  qed
  have d: ?d using R by (simp add: qcut_def Let_def split: if_splits)
  have p: ?p
  proof
    fix row assume "row \<in> set ?rfm"
    then obtain i where i: "i < length ?rfm" "row = ?rfm ! i"
      by (auto simp: in_set_conv_nth)
    show "Recency row \<noteq> None"
    proof
      assume "Recency row = None"
      then have "?x ! i = None" using i by simp
      then have "R ! i = None" using qcut_Inr(2)[OF R, of i] i by simp
      moreover have "R ! i \<in> set R" using i lR by simp
      moreover have "set R = R_Score ` set (map (\<lambda>(row, r, f, m). add_scores row r f m)
          (zip ?rfm (zip R (zip F M))))"
        using scored_rows_FM(3)[OF lR lF lM] by (metis set_map)
      moreover have "\<forall>row\<in>set (map (\<lambda>(row, r, f, m). add_scores row r f m)
          (zip ?rfm (zip R (zip F M)))). R_Score row \<noteq> None"
        using apply_assign_segment_scores[OF app] by blast
      ultimately show False by force
    qed
  qed
  from n2 d p show ?thesis by blast
qed

lemma scored_row_nth:
  assumes "length R = length rfm" "length F = length rfm" "length M = length rfm"
    and "row \<in> set (map (\<lambda>(row, r, f, m). add_scores row r f m) (zip rfm (zip R (zip F M))))"
  shows "\<exists>i<length rfm. row = add_scores (rfm ! i) (R ! i) (F ! i) (M ! i)"
proof -
  let ?z = "zip rfm (zip R (zip F M))"
  have l: "length ?z = length rfm" using assms(1-3) by simp
  from assms(4) obtain i where i: "i < length ?z"
    and r: "row = map (\<lambda>(row, r, f, m). add_scores row r f m) ?z ! i"
    unfolding in_set_conv_nth length_map by blast
  have "row = add_scores (rfm ! i) (R ! i) (F ! i) (M ! i)"
    using i l assms(1-3) unfolding r by simp
  with i l show ?thesis by auto
qed

lemma perform_rfm_analysis_returnsI:
  assumes n2: "2 \<le> length (remdups (map sale.CustomerKey df))"
    and d: "distinct (qcut_bins (map (\<lambda>r. map_option real_of_int (Recency r)) (rfm_table df)) 5)"
    and p: "\<forall>row\<in>set (rfm_table df). Recency row \<noteq> None"
  shows "\<exists>out. perform_rfm_analysis df = Inr out"
proof -
  let ?rfm = "rfm_table df"
  let ?x = "map (\<lambda>r. map_option real_of_int (Recency r)) ?rfm"
  have n: "2 \<le> length ?rfm" using n2 by (simp add: length_rfm_table)
  define R where "R = map (\<lambda>v. bins_to_cuts (map to_float (qcut_bins ?x 5)) [5, 4, 3, 2, 1 :: int]
      True (to_float v)) ?x"
  define F where "F = map (\<lambda>r. Some (rank_quintile (length (map Frequency ?rfm)) r))
      (nat_ranks (map Frequency ?rfm))"
  define M where "M = map (\<lambda>r. Some (rank_quintile (length (map Monetary ?rfm)) r))
      (nat_ranks (map Monetary ?rfm))"
  have R: "qcut ?x 5 [5, 4, 3, 2, 1 :: int] = Inr R"
    using d by (simp only: qcut_def Let_def R_def simp_thms if_False)
  have nF: "2 \<le> length (map Frequency ?rfm)" and nM: "2 \<le> length (map Monetary ?rfm)"
    using n by simp_all
  have F: "qcut (map Some (rank_first (map Frequency ?rfm))) 5 [1, 2, 3, 4, 5 :: int] = Inr F"
    unfolding F_def by (rule qcut_rank_first[OF nF])
  have M: "qcut (map Some (rank_first (map Monetary ?rfm))) 5 [1, 2, 3, 4, 5 :: int] = Inr M"
    unfolding M_def by (rule qcut_rank_first[OF nM])
  have lR: "length R = length ?rfm" by (simp add: R_def)
  have lF: "length F = length ?rfm" by (simp add: F_def length_nat_ranks)
  have lM: "length M = length ?rfm" by (simp add: M_def length_nat_ranks)
  let ?scored = "map (\<lambda>(row, r, f, m). add_scores row r f m) (zip ?rfm (zip R (zip F M)))"
  have "\<forall>row\<in>set ?scored. R_Score row \<noteq> None \<and> F_Score row \<noteq> None \<and> M_Score row \<noteq> None"
  proof
    fix row assume "row \<in> set ?scored"
    from scored_row_nth[OF lR lF lM this] obtain i where i: "i < length ?rfm"
      and row: "row = add_scores (?rfm ! i) (R ! i) (F ! i) (M ! i)" by blast
    have "?rfm ! i \<in> set ?rfm" using i by simp
    with p obtain v where "Recency (?rfm ! i) = Some v" by blast
    then have "?x ! i = Some (real_of_int v)" using i by simp
    moreover have "i < length ?x" using i by simp
    ultimately have r: "R ! i \<noteq> None" using qcut_Some[OF R] by blast
    have f: "F ! i \<noteq> None" using i by (simp add: F_def length_nat_ranks)
    have m: "M ! i \<noteq> None" using i by (simp add: M_def length_nat_ranks)
    show "R_Score row \<noteq> None \<and> F_Score row \<noteq> None \<and> M_Score row \<noteq> None"
      using r f m by (simp add: row add_scores_sel)
  qed
  from apply_assign_segment_total[OF this] obtain out where "apply_assign_segment ?scored = Inr out" ..
  then have "perform_rfm_analysis df = Inr out"
    by (simp add: perform_rfm_analysis_def R F M)
  then show ?thesis ..
qed




section \<open>Theorems: ABC analysis\<close>

lemma cumsum_from_length: "length (cumsum_from a xs) = length xs"
  by (induction xs arbitrary: a) auto

lemma cumsum_from_nth:
  "i < length xs \<Longrightarrow> cumsum_from a xs ! i = a + sum_list (take (Suc i) xs)"
proof (induction xs arbitrary: a i)
  case Nil
  then show ?case by simp
next
  case (Cons x xs)
  then show ?case by (cases i) (auto simp: algebra_simps)
qed

lemma cumsum_nth: "i < length xs \<Longrightarrow> cumsum xs ! i = sum_list (take (Suc i) xs)"
  by (simp add: cumsum_def cumsum_from_nth)

lemma length_cumsum: "length (cumsum xs) = length xs"
  by (simp add: cumsum_def cumsum_from_length)

lemma length_sort_values_desc: "length (sort_values_desc ps) = length ps"
  by (simp add: sort_values_desc_def)

lemma set_sort_values_desc: "set (sort_values_desc ps) = set ps"
  by (simp add: sort_values_desc_def)

lemma sum_list_insort_key:
  "sum_list (map f (insort_key k x xs)) = (f x :: real) + sum_list (map f xs)"
  by (induction xs) (auto simp: algebra_simps)

lemma sum_list_sort_key: "sum_list (map f (sort_key k xs)) = sum_list (map (f :: 'a \<Rightarrow> real) xs)"
  by (induction xs) (auto simp: sum_list_insort_key)

lemma length_abc_analysis: "length (abc_analysis ps) = length ps"
  by (simp add: abc_analysis_def Let_def length_cumsum length_sort_values_desc)

lemma abc_analysis_nth:
  assumes "i < length ps"
  shows "abc_analysis ps ! i =
     (let sp = sort_values_desc ps;
          amounts = map product_sales.SalesAmount sp;
          pct = cumulative_percentage (sum_list (take (Suc i) amounts)) (sum_list amounts)
      in product_sales.extend (sp ! i) (abc_row.fields pct (abc_category pct)))"
  using assms
  by (simp add: abc_analysis_def Let_def length_cumsum length_sort_values_desc cumsum_nth)

lemma ABC_Category_extend:
  "ABC_Category (product_sales.extend p (abc_row.fields a b)) = b"
  by (simp add: product_sales.extend_def abc_row.fields_def)

lemma CumulativePercentage_extend:
  "CumulativePercentage (product_sales.extend p (abc_row.fields a b)) = a"
  by (simp add: product_sales.extend_def abc_row.fields_def)

lemma sum_take_mono:
  assumes "\<forall>x\<in>set xs. 0 \<le> (x::real)" "i \<le> j"
  shows "sum_list (take i xs) \<le> sum_list (take j xs)"
proof -
  have "take j xs = take i xs @ take (j - i) (drop i xs)"
    using assms(2) by (metis le_add_diff_inverse take_add)
  moreover have "0 \<le> sum_list (take (j - i) (drop i xs))"
    using assms(1) by (intro sum_list_nonneg) (auto dest: in_set_takeD in_set_dropD)
  ultimately show ?thesis by simp
qed


text \<open>
  C8, as the code has it. When no product has a negative revenue and the total revenue
  is positive, the cumulative percentage never decreases along the sorted sequence.
\<close>

theorem cumulative_percentage_monotone:
  assumes "\<forall>p\<in>set ps. 0 \<le> product_sales.SalesAmount p"
      and "0 < sum_list (map product_sales.SalesAmount ps)"
  shows "sorted_wrt fle (map CumulativePercentage (abc_analysis ps))"
proof -
  let ?am = "map product_sales.SalesAmount (sort_values_desc ps)"
  have tot: "sum_list ?am = sum_list (map product_sales.SalesAmount ps)"
    by (simp add: sort_values_desc_def sum_list_sort_key)
  have nn: "\<forall>x\<in>set ?am. 0 \<le> x"
    using assms(1) by (auto simp: set_sort_values_desc)
  have pct: "CumulativePercentage (abc_analysis ps ! i) =
        Fin (sum_list (take (Suc i) ?am) / sum_list ?am * 100)" if "i < length ps" for i
    using that assms(2) tot
    by (simp add: abc_analysis_nth Let_def CumulativePercentage_extend
          cumulative_percentage_def)
  show ?thesis
  proof (simp only: sorted_wrt_iff_nth_less length_map length_abc_analysis, intro allI impI)
    fix i j
    assume ij: "i < j" "j < length ps"
    then have i: "i < length ps" by simp
    have "sum_list (take (Suc i) ?am) \<le> sum_list (take (Suc j) ?am)"
      using nn ij by (intro sum_take_mono) auto
    then have "sum_list (take (Suc i) ?am) / sum_list ?am * 100
        \<le> sum_list (take (Suc j) ?am) / sum_list ?am * 100"
      using assms(2) tot by (simp add: divide_right_mono)
    then show "fle (map CumulativePercentage (abc_analysis ps) ! i)
        (map CumulativePercentage (abc_analysis ps) ! j)"
      using ij i by (simp add: length_abc_analysis pct)
  qed
qed

theorem cumulative_percentage_monotone_witness:
  "sorted_wrt fle (map CumulativePercentage (abc_analysis
     [\<lparr>product_sales.ProductKey = 1, ProductName = ''P1'', SalesAmount = 100, OrderQuantity = 1,
       Profit = 10, SalesOrderNumber = 1\<rparr>,
      \<lparr>product_sales.ProductKey = 2, ProductName = ''P2'', SalesAmount = 600, OrderQuantity = 6,
       Profit = 60, SalesOrderNumber = 2\<rparr>]))"
  using cumulative_percentage_monotone
    [of "[\<lparr>product_sales.ProductKey = 1, ProductName = ''P1'', SalesAmount = 100, OrderQuantity = 1,
           Profit = 10, SalesOrderNumber = 1\<rparr>,
          \<lparr>product_sales.ProductKey = 2, ProductName = ''P2'', SalesAmount = 600, OrderQuantity = 6,
           Profit = 60, SalesOrderNumber = 2\<rparr>]"]
  by simp

text \<open>
  C8 as stated fails when a revenue is negative: with the revenues 10 and -5 the
  percentages along the sorted sequence are 200 and 100.
\<close>

theorem cumulative_percentage_monotone_counterexample:
  "map CumulativePercentage (abc_analysis
     [\<lparr>product_sales.ProductKey = 1, ProductName = ''P1'', SalesAmount = 10, OrderQuantity = 1,
       Profit = 1, SalesOrderNumber = 1\<rparr>,
      \<lparr>product_sales.ProductKey = 2, ProductName = ''P2'', SalesAmount = - 5, OrderQuantity = 1,
       Profit = - 1, SalesOrderNumber = 1\<rparr>]) = [Fin 200, Fin 100]
   \<and> \<not> fle (Fin 200) (Fin 100)"
  by (simp add: abc_analysis_def sort_values_desc_def cumsum_def cumulative_percentage_def
        abc_category_def product_sales.extend_def abc_row.fields_def Let_def)

section \<open>Theorems: XYZ analysis\<close>

lemma truncate_extend: "abc_row.truncate (abc_row.extend p f) = p"
  by (simp add: abc_row.truncate_def abc_row.extend_def)

lemma xyz_unknown_truncate: "map abc_row.truncate (xyz_unknown ps) = ps"
  by (induction ps) (simp_all add: xyz_unknown_def truncate_extend)

lemma xyz_unknown_columns:
  "map XYZ_Category (xyz_unknown ps) = replicate (length ps) ''Unknown''"
  "map ABC_XYZ (xyz_unknown ps) = map (\<lambda>p. ABC_Category p @ ''-Unknown'') ps"
  "map CV (xyz_unknown ps) = replicate (length ps) None"
  by (induction ps) (simp_all add: xyz_unknown_def abc_row.extend_def abc_xyz_row.fields_def)

lemma xyz_try_raises: "(\<exists>e. xyz_try st df ps = Inl e) \<longleftrightarrow> st \<noteq> Datetime"
  by (cases st) (simp_all add: xyz_try_def Let_def)

lemma perform_on_failure:
  "xyz_try st df (abc_analysis (groupby_product df)) = Inl e \<Longrightarrow>
     perform_abc_xyz_analysis st df = xyz_unknown (abc_analysis (groupby_product df))"
  by (simp add: perform_abc_xyz_analysis_def Let_def)

lemma cv_short: "length xs \<le> 1 \<Longrightarrow> coefficient_of_variation xs = NaN"
  by (simp add: coefficient_of_variation_def row_std_def)

lemma xyz_category_NaN: "xyz_category NaN = ''Z''"
  by (simp add: xyz_category_def)

lemma monthly_row_length:
  "(k, qs) \<in> set (monthly_product_sales df) \<Longrightarrow> length qs = length (pivot_columns df)"
  by (auto simp: monthly_product_sales_def)

lemma single_month_rows:
  assumes "length (pivot_columns df) \<le> 1"
      and "row \<in> set (perform_abc_xyz_analysis Datetime df)"
  shows "CV row = Some NaN \<and> XYZ_Category row = ''Z''
       \<and> ABC_XYZ row = ABC_Category row @ ''-Z''"
proof -
  let ?ps = "abc_analysis (groupby_product df)"
  let ?cv = "map (\<lambda>(k, qs). (k, coefficient_of_variation qs)) (monthly_product_sales df)"
  from assms(2) obtain p where p: "p \<in> set ?ps"
    and r: "row \<in> set (case map_of ?cv (product_sales.ProductKey p) of
                  None \<Rightarrow> []
                | Some c \<Rightarrow>
                    [abc_row.extend p
                       (abc_xyz_row.fields (Some c) (xyz_category c)
                          (ABC_Category p @ ''-'' @ xyz_category c))])"
    by (auto simp: perform_abc_xyz_analysis_def xyz_try_def Let_def)
  then obtain c where c: "map_of ?cv (product_sales.ProductKey p) = Some c"
    and row: "row = abc_row.extend p
                       (abc_xyz_row.fields (Some c) (xyz_category c)
                          (ABC_Category p @ ''-'' @ xyz_category c))"
    by (cases "map_of ?cv (product_sales.ProductKey p)") auto
  from c have "(product_sales.ProductKey p, c) \<in> set ?cv" by (rule map_of_SomeD)
  then obtain qs where "(product_sales.ProductKey p, qs) \<in> set (monthly_product_sales df)"
    and "c = coefficient_of_variation qs" by auto
  then have "c = NaN"
    using assms(1) monthly_row_length cv_short by metis
  then show ?thesis
    by (simp add: row xyz_category_NaN abc_row.extend_def abc_xyz_row.fields_def)
qed




end
